theory Spec2Isabelle
  imports Main "HOL-Library.Sublist" "HOL-Library.Char_ord" "HOL-Library.List_Lexorder"
    "HOL-Library.AList"
begin

section \<open>Python string primitives used by the engine\<close>

text \<open>
  Strings are \<^typ>\<open>string\<close>. The order on strings is the lexicographic order of
  \<^theory_text>\<open>List_Lexorder\<close> over the character codes of \<^theory_text>\<open>Char_ord\<close>, which is
  the order Python's \<open>sorted\<close> uses on \<open>str\<close>.
\<close>

datatype py_error = IndexError | KeyError | TypeError

text \<open>\<open>sub in s\<close>: \<open>sub\<close> occurs in \<open>s\<close> as a contiguous substring.\<close>

fun str_contains :: "string \<Rightarrow> string \<Rightarrow> bool" where
  "str_contains sub [] = (sub = [])"
| "str_contains sub (c # cs) = (prefix sub (c # cs) \<or> str_contains sub cs)"

text \<open>
  \<open>s.split(sep)\<close> for a one-character separator: \<open>acc\<close> holds the current piece,
  reversed. The result always has at least one piece.
\<close>

fun split_acc :: "char \<Rightarrow> string \<Rightarrow> string \<Rightarrow> string list" where
  "split_acc sep acc [] = [rev acc]"
| "split_acc sep acc (c # cs) =
     (if c = sep then rev acc # split_acc sep [] cs else split_acc sep (c # acc) cs)"

definition split :: "string \<Rightarrow> char \<Rightarrow> string list" where
  "split s sep = split_acc sep [] s"

text \<open>List indexing with a non-negative index; Python raises \<open>IndexError\<close> out of range.\<close>

definition index :: "'a list \<Rightarrow> nat \<Rightarrow> py_error + 'a" where
  "index xs i = (if i < length xs then Inr (xs ! i) else Inl IndexError)"

text \<open>
  \<open>s.replace(old, new)\<close>: every non-overlapping occurrence of \<open>old\<close>, scanning from the
  left, is replaced. The counter is the number of characters of a matched occurrence
  still to be skipped. With an empty \<open>old\<close> Python puts \<open>new\<close> before every character
  and at the end.
\<close>

fun replace_skip :: "string \<Rightarrow> string \<Rightarrow> nat \<Rightarrow> string \<Rightarrow> string" where
  "replace_skip old new n [] = []"
| "replace_skip old new (Suc n) (c # cs) = replace_skip old new n cs"
| "replace_skip old new 0 (c # cs) =
     (if prefix old (c # cs) then new @ replace_skip old new (length old - 1) cs
      else c # replace_skip old new 0 cs)"

definition replace :: "string \<Rightarrow> string \<Rightarrow> string \<Rightarrow> string" where
  "replace s old new =
     (if old = [] then concat (map (\<lambda>c. new @ [c]) s) @ new
      else replace_skip old new 0 s)"

text \<open>
  \<open>s.strip()\<close>. A character stands for a code point below 256; the white space that
  Python strips in that range is 0x09 to 0x0D, 0x1C to 0x1F, the space, 0x85 and 0xA0.
\<close>

definition is_space :: "char \<Rightarrow> bool" where
  "is_space c =
     (c \<in> set [CHR 0x09, CHR 0x0A, CHR 0x0B, CHR 0x0C, CHR 0x0D,
                CHR 0x1C, CHR 0x1D, CHR 0x1E, CHR 0x1F, CHR '' '', CHR 0x85, CHR 0xA0])"

definition strip :: "string \<Rightarrow> string" where
  "strip s = rev (dropWhile is_space (rev (dropWhile is_space s)))"

definition nl :: string where
  "nl = [CHR 0x0A]"

section \<open>Persona namer\<close>

text \<open>
  \<open>create_persona_name\<close> of \<open>TheJanusEngineV5.py\<close>. The core term is the text
  between the first and the second opening parenthesis with every closing parenthesis
  removed, or the whole name when it has no opening parenthesis.
\<close>

definition core_term :: "string \<Rightarrow> py_error + string" where
  "core_term lens_name =
     (if str_contains ''('' lens_name
      then (case index (split lens_name CHR ''('') 1 of
              Inl e \<Rightarrow> Inl e
            | Inr piece \<Rightarrow> Inr (replace piece '')'' ''''))
      else Inr lens_name)"

definition persona_title :: "string \<Rightarrow> string" where
  "persona_title name =
     (if name = ''Structural & Formalist'' then ''The Formalist''
      else if name = ''Historical & Biographical'' then ''The Historian''
      else if name = ''Comparative'' \<or> name = ''General'' then ''The Comparativist''
      else if name \<in> set [''Jungian'', ''Freudian''] then ''The '' @ name @ '' Analyst''
      else if name = ''Evolutionary Psychology'' then ''The Evolutionary Psychologist''
      else if name = ''Behaviorism'' then ''The Behaviorist''
      else if name \<in> set [''Marxist'', ''Feminist''] then ''The '' @ name @ '' Critic''
      else if name \<in> set [''Existentialist'', ''Taoist'', ''Phenomenological'']
        then ''The '' @ name @ '' Philosopher''
      else if name = ''Stoicism'' then ''The Stoic Philosopher''
      else if name = ''Platonism'' then ''The Platonic Philosopher''
      else if name \<in> set [''Utilitarianism'', ''Virtue Ethics'']
        then ''The '' @ replace name ''ism'' '''' @ '' Ethicist''
      else if name = ''Cognitive Science'' then ''The Cognitive Scientist''
      else if name = ''Systems Theory'' then ''The Systems Theorist''
      else if name = ''Ecocriticism'' then ''The Ecocritic''
      else if name = ''Buddhist'' then ''The Buddhist Scholar''
      else if name = ''Western Esotericism'' then ''The Esotericist''
      else if str_contains ''Theory'' name \<or> name = ''Post-Colonial''
        then ''The '' @ replace name '' Theory'' '''' @ '' Theorist''
      else ''The '' @ name @ '' Scholar'')"

definition create_persona_name :: "string \<Rightarrow> py_error + string" where
  "create_persona_name lens_name =
     (case core_term lens_name of Inl e \<Rightarrow> Inl e | Inr name \<Rightarrow> Inr (persona_title name))"

text \<open>\<open>create_persona_name\<close> of \<open>MasterLensV3.py\<close>: the same extraction, a shorter table.\<close>

definition persona_title_V3 :: "string \<Rightarrow> string" where
  "persona_title_V3 name =
     (if name = ''Structural & Formalist'' then ''The Formalist''
      else if name = ''Historical & Biographical'' then ''The Historian''
      else if name = ''Comparative'' then ''The Comparativist''
      else if name \<in> set [''Jungian'', ''Freudian''] then ''The '' @ name @ '' Analyst''
      else if name \<in> set [''Marxist'', ''Feminist''] then ''The '' @ name @ '' Critic''
      else if name \<in> set [''Existentialist'', ''Taoist''] then ''The '' @ name @ '' Philosopher''
      else if str_contains ''Theory'' name \<or> name = ''Post-Colonial''
        then ''The '' @ replace name '' Theory'' '''' @ '' Theorist''
      else ''The '' @ name @ '' Scholar'')"

definition create_persona_name_V3 :: "string \<Rightarrow> py_error + string" where
  "create_persona_name_V3 lens_name =
     (case core_term lens_name of Inl e \<Rightarrow> Inl e | Inr name \<Rightarrow> Inr (persona_title_V3 name))"

section \<open>Lens catalog and flattener\<close>

text \<open>
  The catalog of \<open>The-Janus-Engine-v7.2.py\<close> is a dictionary from a category name to
  the list of its lens names. A dictionary is an association list in insertion order.
\<close>

type_synonym lenses_hierarchy = "(string \<times> string list) list"

definition LENSES_HIERARCHY :: lenses_hierarchy where
  "LENSES_HIERARCHY =
    [(''Structural & Formalist'',
        [''Formalist'', ''Structuralism'', ''Narratology'', ''Semiotics'',
         ''Computational Analysis/Digital Humanities'']),
     (''Psychological'',
        [''Jungian'', ''Freudian'', ''Evolutionary Psychology'', ''Behaviorism'', ''Lacanian'']),
     (''Philosophical'',
        [''Existentialist'', ''Taoist'', ''Phenomenological'', ''Stoicism'', ''Platonism'',
         ''Nietzschean'', ''Absurdism'']),
     (''Socio-Political'', [''Marxist'', ''Feminist'', ''Post-Colonial'', ''Queer Theory'']),
     (''Art History & Aesthetics'',
        [''Aestheticism'', ''Cubism'', ''Surrealism'', ''Iconography/Iconology'',
         ''Formalist Art Criticism'', ''Impressionism'']),
     (''Communication & Media Theory'',
        [''Rhetorical Analysis'', ''Media Ecology (McLuhan)'', ''Agenda-Setting Theory'',
         ''Uses and Gratifications Theory'']),
     (''Ethical Frameworks'',
        [''Utilitarianism'', ''Virtue Ethics'', ''Deontology (Kantian)'', ''Bioethics'']),
     (''Scientific & STEM Perspectives'',
        [''Cognitive Science'', ''Systems Theory (Complexity)'', ''Ecocriticism'',
         ''Astrophysics/Cosmology'', ''Materials Science'', ''Epidemiology'']),
     (''Economics & Systems'',
        [''Game Theory'', ''Behavioral Economics'', ''Supply Chain Analysis'']),
     (''Law & Governance'', [''Legal Positivism'', ''Critical Legal Studies'']),
     (''Spiritual & Esoteric'',
        [''Animism'', ''Bhakti Yoga (Hindu Devotion)'', ''Buddhist Philosophy (General)'',
         ''Christian Mysticism'', ''Christian Theology'', ''Gnosticism'', ''Hermeticism'',
         ''Kabbalah (Jewish Mysticism)'', ''Mysticism (General)'', ''Quranic Studies (Islam)'',
         ''Rabbinic Thought (Judaism)'', ''Shinto'', ''Sufism (Islamic Mysticism)'',
         ''Tibetan Buddhism'', ''Vedanta (Hindu Philosophy)'', ''Western Esotericism'',
         ''Zen Buddhism'']),
     (''Historical & Contextual'', [''Biographical'', ''Historical Context'', ''Reader-Response''])]"

text \<open>
  \<open>flatten_lenses\<close> (v7.2): every category's list is appended to \<open>flat_lenses\<close>, then
  \<open>sorted(list(set(flat_lenses)))\<close>.
\<close>

definition flat_lenses :: "lenses_hierarchy \<Rightarrow> string list" where
  "flat_lenses lenses_hierarchy = concat (map snd lenses_hierarchy)"

definition flatten_lenses :: "lenses_hierarchy \<Rightarrow> string list" where
  "flatten_lenses lenses_hierarchy = sorted_list_of_set (set (flat_lenses lenses_hierarchy))"

text \<open>
  \<open>get_filtered_lenses\<close>: the lenses of the selected categories that are keys of the
  hierarchy, unique and sorted.
\<close>

definition get_filtered_lenses :: "lenses_hierarchy \<Rightarrow> string list \<Rightarrow> string list" where
  "get_filtered_lenses hierarchy selected_categories =
     sorted_list_of_set (set (concat (map (\<lambda>category.
        case map_of hierarchy category of None \<Rightarrow> [] | Some lens_list \<Rightarrow> lens_list)
        selected_categories)))"

text \<open>
  The tier assignment that \<open>create_functional_mapping\<close> holds in its local variable
  \<open>mapping\<close>.
\<close>

definition functional_mapping :: lenses_hierarchy where
  "functional_mapping =
    [(''Contextual (What, Who, Where, When)'',
        [''Biographical'', ''Historical Context'', ''Reader-Response'', ''Epidemiology'',
         ''Supply Chain Analysis'', ''Astrophysics/Cosmology'', ''Quranic Studies (Islam)'',
         ''Rabbinic Thought (Judaism)'', ''Iconography/Iconology'', ''Agenda-Setting Theory'']),
     (''Mechanical (How)'',
        [''Formalist'', ''Structuralism'', ''Narratology'', ''Semiotics'',
         ''Systems Theory (Complexity)'', ''Cognitive Science'', ''Behaviorism'',
         ''Game Theory'', ''Behavioral Economics'',
         ''Computational Analysis/Digital Humanities'', ''Materials Science'',
         ''Legal Positivism'', ''Cubism'', ''Formalist Art Criticism'', ''Impressionism'',
         ''Rhetorical Analysis'']),
     (''Interpretive (Why)'',
        [''Jungian'', ''Freudian'', ''Lacanian'', ''Evolutionary Psychology'',
         ''Existentialist'', ''Taoist'', ''Phenomenological'', ''Stoicism'', ''Platonism'',
         ''Nietzschean'', ''Absurdism'', ''Marxist'', ''Feminist'', ''Post-Colonial'',
         ''Queer Theory'', ''Utilitarianism'', ''Virtue Ethics'', ''Deontology (Kantian)'',
         ''Bioethics'', ''Ecocriticism'', ''Critical Legal Studies'', ''Animism'',
         ''Bhakti Yoga (Hindu Devotion)'', ''Buddhist Philosophy (General)'',
         ''Christian Mysticism'', ''Christian Theology'', ''Gnosticism'', ''Hermeticism'',
         ''Kabbalah (Jewish Mysticism)'', ''Mysticism (General)'', ''Shinto'',
         ''Sufism (Islamic Mysticism)'', ''Tibetan Buddhism'', ''Vedanta (Hindu Philosophy)'',
         ''Western Esotericism'', ''Zen Buddhism'', ''Aestheticism'', ''Surrealism'',
         ''Media Ecology (McLuhan)'', ''Uses and Gratifications Theory''])]"

text \<open>
  \<open>create_functional_mapping\<close>: the validation check logs one warning carrying the set
  \<open>missing\<close> when that set is not empty; the tier lists are then sorted and the mapping
  is returned. The result pairs the warnings logged with the mapping returned.
\<close>

definition create_functional_mapping ::
  "lenses_hierarchy \<Rightarrow> string set list \<times> lenses_hierarchy" where
  "create_functional_mapping lenses_hierarchy =
     (let mapping = functional_mapping;
          all_hierarchical = set (flatten_lenses lenses_hierarchy);
          all_functional = set (flatten_lenses mapping);
          missing = all_hierarchical - all_functional;
          warnings = (if missing \<noteq> {} then [missing] else [])
      in (warnings, map (\<lambda>(key, lenses). (key, sort lenses)) mapping))"

text \<open>
  The catalog of \<open>TheJanusEngineV5.py\<close> and \<open>MasterLensV3.py\<close>: a category holds a
  description and either a dictionary of sub-lenses (name to prompt) or one prompt.
\<close>

record details =
  description :: string
  sub_lenses :: "(string \<times> string) list option"
  prompt :: "string option"

type_synonym lenses_V5 = "(string \<times> details) list"

text \<open>
  \<open>flatten_lenses\<close> (V5, V3) builds the dictionary from lens key to prompt, a category
  with sub-lenses giving one key \<open>Main Lens (Sub Lens)\<close> per sub-lens. An assignment to
  a key that is already there replaces its value. \<open>textwrap.dedent\<close> is a parameter;
  \<open>flatten_category\<close> is the body of the loop over the categories.
\<close>

definition flatten_category ::
  "(string \<Rightarrow> string) \<Rightarrow> string \<times> details \<Rightarrow> (string \<times> string) list
     \<Rightarrow> (string \<times> string) list" where
  "flatten_category dedent = (\<lambda>(main_lens, details) flat.
     case sub_lenses details of
       Some subs \<Rightarrow>
         fold (\<lambda>(sub_lens, p) flat.
                 AList.update (main_lens @ '' ('' @ sub_lens @ '')'') (strip (dedent p)) flat)
              subs flat
     | None \<Rightarrow>
         (case prompt details of
            Some p \<Rightarrow> AList.update main_lens (strip (dedent p)) flat
          | None \<Rightarrow> flat))"

definition flatten_lenses_V5 :: "(string \<Rightarrow> string) \<Rightarrow> lenses_V5 \<Rightarrow> (string \<times> string) list" where
  "flatten_lenses_V5 dedent lenses = fold (flatten_category dedent) lenses []"

definition SORTED_LENS_NAMES_V5 :: "(string \<Rightarrow> string) \<Rightarrow> lenses_V5 \<Rightarrow> string list" where
  "SORTED_LENS_NAMES_V5 dedent lenses = sort (map fst (flatten_lenses_V5 dedent lenses))"

text \<open>The key of every leaf of a V5 catalog, in the order of the catalog, one per leaf.\<close>

definition leaf_keys_V5 :: "lenses_V5 \<Rightarrow> string list" where
  "leaf_keys_V5 lenses =
     concat (map (\<lambda>(main_lens, details).
                    case sub_lenses details of
                      Some subs \<Rightarrow> map (\<lambda>(sub_lens, p). main_lens @ '' ('' @ sub_lens @ '')'') subs
                    | None \<Rightarrow> (case prompt details of Some p \<Rightarrow> [main_lens] | None \<Rightarrow> []))
                 lenses)"

section \<open>Works, the remote file store and the generation service\<close>

datatype modality = M_TEXT | M_IMAGE | M_AUDIO

text \<open>
  The file object of the upload widget: its declared MIME type (\<open>.type\<close>, which may be
  absent or empty) and its file name (\<open>.name\<close>).
\<close>

record uploaded_file =
  uf_type :: "string option"
  uf_name :: string

record WorkInput =
  title :: string
  modality :: modality
  data :: "string option"
  uploaded_file_obj :: "uploaded_file option"

text \<open>Python truthiness of a value that is \<open>None\<close> or a string.\<close>

definition truthy :: "string option \<Rightarrow> bool" where
  "truthy v = (case v of None \<Rightarrow> False | Some s \<Rightarrow> s \<noteq> [])"

definition is_ready :: "WorkInput \<Rightarrow> bool" where
  "is_ready work_input =
     (if modality work_input = M_TEXT
      then (case data work_input of None \<Rightarrow> False | Some d \<Rightarrow> length d > 0)
      else uploaded_file_obj work_input \<noteq> None)"

definition get_display_title :: "WorkInput \<Rightarrow> string" where
  "get_display_title work_input = (if title work_input \<noteq> [] then title work_input else ''(Untitled)'')"

text \<open>A handle of the remote file store: name, URI and the name of its processing state.\<close>

record remote_file =
  rf_name :: string
  rf_uri :: string
  rf_state :: string

text \<open>What is sent to the generation service: text, or a reference to a remote file.\<close>

datatype content = Text string | FileRef remote_file

text \<open>Every call made to the remote file store and to the generation service, in order.\<close>

datatype api_call =
    UploadFile string string
  | GetFile string
  | DeleteFile string
  | GenerateContent "content list"

datatype log_record = CleanedUp string | DeleteFailed | UploadError | AnalysisError

text \<open>
  An exception raised inside the \<open>try\<close> of \<open>upload_to_gemini\<close>: the first handler
  catches \<open>TimeoutError\<close>, the second every other exception.
\<close>

datatype exn = TimeoutError | OtherException

text \<open>
  The collaborators are outside the repository; their behaviour is a parameter.
  \<open>upload_response\<close> is the handle that \<open>upload_file\<close> returns, or the exception it
  raises. \<open>get_response k\<close> answers the \<open>k\<close>-th poll (counting from 0) with the
  refreshed handle or with the exception raised, and the poll takes \<open>get_duration k\<close>
  seconds. \<open>generate_response k\<close> answers the \<open>k\<close>-th generation call with the text of
  the response, \<open>None\<close> when the call or the access to the text raises; \<open>delete_raises\<close>
  tells whether \<open>delete_file\<close> raises. The exceptions of these two are all handled
  alike, so their kind is left out. \<open>guess_type\<close> is the first component of
  \<open>mimetypes.guess_type\<close>. The wording of the long prompt templates is a parameter too:
  the meta-prompt of the General, the image and audio instructions of the V5 engine, and
  the three synthesis prompts as functions of the values they interpolate.
\<close>

record env =
  guess_type :: "string \<Rightarrow> string option"
  upload_response :: "exn + remote_file"
  get_response :: "nat \<Rightarrow> exn + remote_file"
  get_duration :: "nat \<Rightarrow> nat"
  delete_raises :: bool
  generate_response :: "nat \<Rightarrow> content list \<Rightarrow> string option"
  meta_prompt :: "string \<Rightarrow> modality \<Rightarrow> string"
  image_instruction :: string
  audio_instruction :: string
  dialectical_prompt :: "string \<Rightarrow> string \<Rightarrow> string \<Rightarrow> string \<Rightarrow> string \<Rightarrow> string"
  symposium_prompt :: "(string \<times> string) list \<Rightarrow> string \<Rightarrow> string"
  comparative_prompt :: "string \<Rightarrow> string \<Rightarrow> string \<Rightarrow> string \<Rightarrow> string \<Rightarrow> string"

text \<open>The state threaded through the engine: the calls made, the clock in seconds, the log.\<close>

record world =
  calls :: "api_call list"
  clock :: int
  logged :: "log_record list"

definition is_upload :: "api_call \<Rightarrow> bool" where
  "is_upload c = (case c of UploadFile _ _ \<Rightarrow> True | _ \<Rightarrow> False)"

definition is_get :: "api_call \<Rightarrow> bool" where
  "is_get c = (case c of GetFile _ \<Rightarrow> True | _ \<Rightarrow> False)"

definition is_delete :: "api_call \<Rightarrow> bool" where
  "is_delete c = (case c of DeleteFile _ \<Rightarrow> True | _ \<Rightarrow> False)"

definition is_generate :: "api_call \<Rightarrow> bool" where
  "is_generate c = (case c of GenerateContent _ \<Rightarrow> True | _ \<Rightarrow> False)"

definition count_calls :: "(api_call \<Rightarrow> bool) \<Rightarrow> world \<Rightarrow> nat" where
  "count_calls kind w = length (filter kind (calls w))"

definition call :: "api_call \<Rightarrow> world \<Rightarrow> world" where
  "call c w = w\<lparr>calls := calls w @ [c]\<rparr>"

definition sleep :: "int \<Rightarrow> world \<Rightarrow> world" where
  "sleep secs w = w\<lparr>clock := clock w + secs\<rparr>"

definition log :: "log_record \<Rightarrow> world \<Rightarrow> world" where
  "log r w = w\<lparr>logged := logged w @ [r]\<rparr>"

section \<open>Media uploader\<close>

definition POLL_INTERVAL :: int where
  "POLL_INTERVAL = 3"

definition TIMEOUT :: int where
  "TIMEOUT = 300"

text \<open>
  Step 1 of \<open>upload_to_gemini\<close>: the final value of the variable \<open>mime_type\<close>. The guess
  replaces the declared type only when the guess is truthy.
\<close>

definition determine_mime_type :: "env \<Rightarrow> uploaded_file \<Rightarrow> string option" where
  "determine_mime_type e f =
     (let mime_type = uf_type f;
          file_name = uf_name f
      in if \<not> truthy mime_type \<or> mime_type = Some ''application/octet-stream''
         then (let guessed_mime = guess_type e file_name
               in if truthy guessed_mime then guessed_mime else mime_type)
         else mime_type)"

text \<open>
  The polling loop. It ends with the refreshed handle once the state is not
  \<open>PROCESSING\<close>, or with the exception raised: \<open>TimeoutError\<close> by the loop itself
  when the ceiling is exceeded, or whatever \<open>get_file\<close> raises.
\<close>

function poll_loop ::
  "env \<Rightarrow> int \<Rightarrow> remote_file \<Rightarrow> world \<Rightarrow> (exn + remote_file) \<times> world" where
  "poll_loop e start_time uploaded_file w =
     (if rf_state uploaded_file = ''PROCESSING''
      then (if clock w - start_time > TIMEOUT then (Inl TimeoutError, w)
            else (let w1 = sleep POLL_INTERVAL w;
                      k = count_calls is_get w1;
                      w2 = sleep (int (get_duration e k)) (call (GetFile (rf_name uploaded_file)) w1)
                  in case get_response e k of
                       Inl raised \<Rightarrow> (Inl raised, w2)
                     | Inr refreshed \<Rightarrow> poll_loop e start_time refreshed w2))
      else (Inr uploaded_file, w))"
  by pat_completeness auto
termination
  by (relation "measure (\<lambda>(e, start_time, uploaded_file, w). nat (start_time + TIMEOUT + 1 - clock w))")
     (auto simp: sleep_def call_def POLL_INTERVAL_def TIMEOUT_def)

text \<open>
  \<open>upload_to_gemini\<close>. Every failure path of the source shows an error message and
  returns \<open>None\<close>; the model returns the kind of failure. A \<open>TimeoutError\<close>, raised by
  the loop or by a call to the file store, is reported as the timeout and not logged; any
  other exception is reported as a failed upload and logged.
\<close>

datatype upload_error =
    NoFileObject
  | MimeTypeUnknown
  | UploadTimeout
  | RemoteProcessingFailed
  | UnexpectedState string
  | UploadFailed

definition upload_to_gemini ::
  "env \<Rightarrow> WorkInput \<Rightarrow> world \<Rightarrow> (upload_error + remote_file) \<times> world" where
  "upload_to_gemini e work_input w =
     (case uploaded_file_obj work_input of
        None \<Rightarrow> (Inl NoFileObject, w)
      | Some f \<Rightarrow>
          (case determine_mime_type e f of
             None \<Rightarrow> (Inl MimeTypeUnknown, w)
           | Some mime_type \<Rightarrow>
               if mime_type = [] then (Inl MimeTypeUnknown, w)
               else (let display_name = take 128 (get_display_title work_input);
                         w1 = call (UploadFile display_name mime_type) w
                     in case upload_response e of
                          Inl TimeoutError \<Rightarrow> (Inl UploadTimeout, w1)
                        | Inl OtherException \<Rightarrow> (Inl UploadFailed, log UploadError w1)
                        | Inr uploaded_file \<Rightarrow>
                            (let start_time = clock w1
                             in case poll_loop e start_time uploaded_file w1 of
                                  (Inl TimeoutError, w2) \<Rightarrow> (Inl UploadTimeout, w2)
                                | (Inl OtherException, w2) \<Rightarrow> (Inl UploadFailed, log UploadError w2)
                                | (Inr polled, w2) \<Rightarrow>
                                    if rf_state polled = ''FAILED''
                                      then (Inl RemoteProcessingFailed, w2)
                                    else if rf_state polled = ''ACTIVE''
                                      then (Inr polled, w2)
                                    else (Inl (UnexpectedState (rf_state polled)), w2)))))"

section \<open>Analysis generator\<close>

text \<open>\<open>{work_input.data}\<close> inside an f-string: \<open>None\<close> is printed as the word.\<close>

definition str_of_data :: "string option \<Rightarrow> string" where
  "str_of_data d = (case d of None \<Rightarrow> ''None'' | Some s \<Rightarrow> s)"

definition file_part :: "remote_file option \<Rightarrow> content list" where
  "file_part gemini_file = (case gemini_file of None \<Rightarrow> [] | Some f \<Rightarrow> [FileRef f])"

text \<open>
  The \<open>finally\<close> block of \<open>generate_analysis\<close>: the file is deleted when \<open>gemini_file\<close>
  is set; a failing deletion is logged and goes no further.
\<close>

definition cleanup :: "env \<Rightarrow> remote_file option \<Rightarrow> world \<Rightarrow> world" where
  "cleanup e gemini_file w =
     (case gemini_file of
        None \<Rightarrow> w
      | Some f \<Rightarrow>
          (let w1 = call (DeleteFile (rf_name f)) w
           in if delete_raises e then log DeleteFailed w1 else log (CleanedUp (rf_name f)) w1))"

text \<open>
  Steps 1 and 2 of \<open>generate_analysis\<close> (v7.2): the call to the General, then the call to
  the Soldier with the stripped answer of the General as its prompt. An exception in
  either call is caught by the handler, which returns \<open>None\<close>.
\<close>

definition general_soldier ::
  "env \<Rightarrow> string \<Rightarrow> WorkInput \<Rightarrow> remote_file option \<Rightarrow> world \<Rightarrow> string option \<times> world" where
  "general_soldier e lens_keyword work_input gemini_file w =
     (let meta_prompt_instructions = meta_prompt e lens_keyword (modality work_input);
          content_input_general =
            [Text meta_prompt_instructions] @
            (if modality work_input = M_TEXT
             then [Text (nl @ ''--- The Creative Work (For Context) ---'' @ nl @ ''Title: ''
                         @ get_display_title work_input @ nl @ nl @ ''Work:'' @ nl
                         @ str_of_data (data work_input))]
             else file_part gemini_file);
          k = count_calls is_generate w;
          w1 = call (GenerateContent content_input_general) w
      in case generate_response e k content_input_general of
           None \<Rightarrow> (None, log AnalysisError w1)
         | Some response_general \<Rightarrow>
             (let soldier_prompt = strip response_general;
                  content_input_soldier =
                    (if modality work_input = M_TEXT
                     then [Text (soldier_prompt @ nl @ nl
                                 @ ''--- The Creative Work (To Be Analyzed) ---'' @ nl @ ''Title: ''
                                 @ get_display_title work_input @ nl @ nl @ ''Work:'' @ nl
                                 @ str_of_data (data work_input))]
                     else [Text soldier_prompt] @ file_part gemini_file);
                  k2 = count_calls is_generate w1;
                  w2 = call (GenerateContent content_input_soldier) w1
              in case generate_response e k2 content_input_soldier of
                   None \<Rightarrow> (None, log AnalysisError w2)
                 | Some response_soldier \<Rightarrow> (Some response_soldier, w2)))"

text \<open>
  \<open>generate_analysis\<close> (v7.2). For image and audio the work is uploaded first; when the
  upload gives no handle the function returns \<open>None\<close> with \<open>gemini_file\<close> unset, so the
  \<open>finally\<close> block deletes nothing.
\<close>

definition generate_analysis ::
  "env \<Rightarrow> string \<Rightarrow> WorkInput \<Rightarrow> world \<Rightarrow> string option \<times> world" where
  "generate_analysis e lens_keyword work_input w =
     (if modality work_input \<in> set [M_IMAGE, M_AUDIO]
      then (case upload_to_gemini e work_input w of
              (Inl err, w1) \<Rightarrow> (None, cleanup e None w1)
            | (Inr gemini_file, w1) \<Rightarrow>
                (case general_soldier e lens_keyword work_input (Some gemini_file) w1 of
                   (result, w2) \<Rightarrow> (result, cleanup e (Some gemini_file) w2)))
      else (case general_soldier e lens_keyword work_input None w of
              (result, w2) \<Rightarrow> (result, cleanup e None w2)))"

text \<open>
  \<open>generate_analysis\<close> of \<open>TheJanusEngineV5.py\<close>: one generation call. The prompt of the
  lens is looked up before the \<open>try\<close>, so a key outside the flattened index raises
  \<open>KeyError\<close>. The V5 engine shows its errors and prints its clean-up messages; it
  writes nothing to the log. Its \<open>upload_to_gemini\<close> has the handlers and the loop of
  the v7.2 one, without the log record.
\<close>

definition generate_once ::
  "env \<Rightarrow> content list \<Rightarrow> world \<Rightarrow> string option \<times> world" where
  "generate_once e content_input w =
     (let k = count_calls is_generate w;
          w1 = call (GenerateContent content_input) w
      in (generate_response e k content_input, w1))"

definition upload_to_gemini_V5 ::
  "env \<Rightarrow> WorkInput \<Rightarrow> world \<Rightarrow> (upload_error + remote_file) \<times> world" where
  "upload_to_gemini_V5 e work_input w =
     (case upload_to_gemini e work_input w of
        (result, w1) \<Rightarrow> (result, w1\<lparr>logged := logged w\<rparr>))"

definition cleanup_V5 :: "remote_file option \<Rightarrow> world \<Rightarrow> world" where
  "cleanup_V5 gemini_file w =
     (case gemini_file of None \<Rightarrow> w | Some f \<Rightarrow> call (DeleteFile (rf_name f)) w)"

definition generate_analysis_V5 ::
  "env \<Rightarrow> (string \<rightharpoonup> string) \<Rightarrow> string \<Rightarrow> WorkInput \<Rightarrow> world
     \<Rightarrow> (py_error + string option) \<times> world" where
  "generate_analysis_V5 e FLATTENED_LENSES prompt_key work_input w =
     (case FLATTENED_LENSES prompt_key of
        None \<Rightarrow> (Inl KeyError, w)
      | Some base_prompt \<Rightarrow>
          (if modality work_input = M_TEXT
           then (let final_prompt = base_prompt @ nl @ nl @ ''The work is as follows:'' @ nl
                       @ ''---'' @ nl @ ''Title: '' @ get_display_title work_input @ nl @ nl
                       @ ''Work:'' @ nl @ str_of_data (data work_input)
                 in case generate_once e [Text final_prompt] w of
                      (result, w1) \<Rightarrow> (Inr result, cleanup_V5 None w1))
           else (let instruction = (if modality work_input = M_IMAGE then image_instruction e
                                    else audio_instruction e);
                     final_prompt = instruction @ nl @ nl @ base_prompt @ nl @ nl @ ''Title: ''
                       @ get_display_title work_input
                 in case upload_to_gemini_V5 e work_input w of
                      (Inl err, w1) \<Rightarrow> (Inr None, cleanup_V5 None w1)
                    | (Inr gemini_file, w1) \<Rightarrow>
                        (case generate_once e [Text final_prompt, FileRef gemini_file] w1 of
                           (result, w2) \<Rightarrow> (Inr result, cleanup_V5 (Some gemini_file) w2)))))"

section \<open>Synthesis generators\<close>

text \<open>Each synthesis is one generation call on its prompt; a failure gives \<open>None\<close>.\<close>

definition synthesize :: "env \<Rightarrow> string \<Rightarrow> world \<Rightarrow> string option \<times> world" where
  "synthesize e synthesis_prompt w =
     (let k = count_calls is_generate w;
          w1 = call (GenerateContent [Text synthesis_prompt]) w
      in (generate_response e k [Text synthesis_prompt], w1))"

definition generate_dialectical_synthesis ::
  "env \<Rightarrow> string \<Rightarrow> string \<Rightarrow> string \<Rightarrow> string \<Rightarrow> string \<Rightarrow> world \<Rightarrow> string option \<times> world" where
  "generate_dialectical_synthesis e lens_a_name analysis_a lens_b_name analysis_b work_title w =
     synthesize e (dialectical_prompt e lens_a_name analysis_a lens_b_name analysis_b work_title) w"

definition generate_symposium_synthesis ::
  "env \<Rightarrow> (string \<times> string) list \<Rightarrow> string \<Rightarrow> world \<Rightarrow> string option \<times> world" where
  "generate_symposium_synthesis e analyses_dict work_title w =
     synthesize e (symposium_prompt e analyses_dict work_title) w"

definition generate_comparative_synthesis ::
  "env \<Rightarrow> string \<Rightarrow> string \<Rightarrow> string \<Rightarrow> string \<Rightarrow> string \<Rightarrow> world \<Rightarrow> string option \<times> world" where
  "generate_comparative_synthesis e lens_name analysis_a work_a_title analysis_b work_b_title w =
     synthesize e (comparative_prompt e lens_name analysis_a work_a_title analysis_b work_b_title) w"

section \<open>Pipelines\<close>

text \<open>
  What an execution block of the main script did, in order: each call of
  \<open>generate_analysis\<close> with its lens, work and result, and each call of a synthesis
  generator with the analyses it was given and its result.
\<close>

datatype step =
    Analysis string WorkInput "string option"
  | DialecticalSynthesis string string string string "string option"
  | SymposiumSynthesis "(string \<times> string) list" "string option"
  | ComparativeSynthesis string string string "string option"

text \<open>Kinds of steps: an analysis whose result is \<open>None\<close> or empty, and a synthesis.\<close>

definition failed_analysis :: "step \<Rightarrow> bool" where
  "failed_analysis s = (case s of Analysis lens work_input result \<Rightarrow> \<not> truthy result | _ \<Rightarrow> False)"

definition is_synthesis :: "step \<Rightarrow> bool" where
  "is_synthesis s = (case s of Analysis lens work_input result \<Rightarrow> False | _ \<Rightarrow> True)"

text \<open>
  Mode 2, dialectical dialogue. The antithesis is generated only \<open>if analysis_a\<close>, the
  synthesis only \<open>if analysis_a and analysis_b\<close>.
\<close>

definition dialectical_execution ::
  "env \<Rightarrow> string \<Rightarrow> string \<Rightarrow> WorkInput \<Rightarrow> world \<Rightarrow> step list \<times> world" where
  "dialectical_execution e lens_a_name lens_b_name work_a w =
     (case generate_analysis e lens_a_name work_a w of
        (analysis_a, w1) \<Rightarrow>
          (case (if truthy analysis_a
                 then (case generate_analysis e lens_b_name work_a w1 of
                         (analysis_b, w2) \<Rightarrow> (analysis_b, [Analysis lens_b_name work_a analysis_b], w2))
                 else (None, [], w1)) of
             (analysis_b, steps_b, w2) \<Rightarrow>
               (if truthy analysis_a \<and> truthy analysis_b
                then (case generate_dialectical_synthesis e lens_a_name (str_of_data analysis_a)
                             lens_b_name (str_of_data analysis_b) (get_display_title work_a) w2 of
                        (dialogue_text, w3) \<Rightarrow>
                          ([Analysis lens_a_name work_a analysis_a] @ steps_b @
                           [DialecticalSynthesis lens_a_name (str_of_data analysis_a)
                              lens_b_name (str_of_data analysis_b) dialogue_text], w3))
                else ([Analysis lens_a_name work_a analysis_a] @ steps_b, w2))))"

text \<open>
  Mode 3, symposium. The loop over the selected lenses carries the dictionary
  \<open>analyses_results\<close>, the flag \<open>continue_execution\<close>, the steps so far and the world.
\<close>

fun symposium_loop ::
  "env \<Rightarrow> WorkInput \<Rightarrow> string list \<Rightarrow> (string \<times> string) list \<times> bool \<times> step list \<times> world
     \<Rightarrow> (string \<times> string) list \<times> bool \<times> step list \<times> world" where
  "symposium_loop e work_a [] st = st"
| "symposium_loop e work_a (lens_name # rest) (analyses_results, continue_execution, steps, w) =
     (if \<not> continue_execution then (analyses_results, continue_execution, steps, w)
      else (case generate_analysis e lens_name work_a w of
              (analysis_text, w1) \<Rightarrow>
                (if truthy analysis_text
                 then symposium_loop e work_a rest
                        (AList.update lens_name (str_of_data analysis_text) analyses_results,
                         continue_execution, steps @ [Analysis lens_name work_a analysis_text], w1)
                 else symposium_loop e work_a rest
                        (analyses_results, False,
                         steps @ [Analysis lens_name work_a analysis_text], w1))))"

definition symposium_execution ::
  "env \<Rightarrow> string list \<Rightarrow> WorkInput \<Rightarrow> world \<Rightarrow> step list \<times> world" where
  "symposium_execution e selected_lenses work_a w =
     (case symposium_loop e work_a selected_lenses ([], True, [], w) of
        (analyses_results, continue_execution, steps, w1) \<Rightarrow>
          (if continue_execution
           then (case generate_symposium_synthesis e analyses_results (get_display_title work_a) w1 of
                   (symposium_text, w2) \<Rightarrow>
                     (steps @ [SymposiumSynthesis analyses_results symposium_text], w2))
           else (steps, w1)))"

text \<open>Mode 4, comparative synthesis: one lens, two works.\<close>

definition comparative_execution ::
  "env \<Rightarrow> string \<Rightarrow> WorkInput \<Rightarrow> WorkInput \<Rightarrow> world \<Rightarrow> step list \<times> world" where
  "comparative_execution e lens_name work_a work_b w =
     (case generate_analysis e lens_name work_a w of
        (analysis_a, w1) \<Rightarrow>
          (case (if truthy analysis_a
                 then (case generate_analysis e lens_name work_b w1 of
                         (analysis_b, w2) \<Rightarrow> (analysis_b, [Analysis lens_name work_b analysis_b], w2))
                 else (None, [], w1)) of
             (analysis_b, steps_b, w2) \<Rightarrow>
               (if truthy analysis_a \<and> truthy analysis_b
                then (case generate_comparative_synthesis e lens_name (str_of_data analysis_a)
                             (get_display_title work_a) (str_of_data analysis_b)
                             (get_display_title work_b) w2 of
                        (synthesis_text, w3) \<Rightarrow>
                          ([Analysis lens_name work_a analysis_a] @ steps_b @
                           [ComparativeSynthesis lens_name (str_of_data analysis_a)
                              (str_of_data analysis_b) synthesis_text], w3))
                else ([Analysis lens_name work_a analysis_a] @ steps_b, w2))))"

section \<open>Selection, validation and execution of one run of the script\<close>

datatype analysis_mode = A_SINGLE | A_DIALECTICAL | A_SYMPOSIUM | A_COMPARATIVE

text \<open>\<open>st.session_state.selection\<close>: \<open>None\<close>, one lens name, or a list of lens names.\<close>

datatype selection = NoSelection | Lens string | Lenses "string list"

text \<open>
  The values the widgets hand to one run of the script: the mode, the values of the
  variables \<open>specific_lens\<close>, \<open>lens_a\<close>, \<open>lens_b\<close> (\<open>None\<close> when nothing is chosen),
  \<open>selected_categories\<close> and \<open>selected_lenses\<close>, the API key, the button, the two
  works, and whether \<open>get_model\<close> returns a model.
\<close>

record widgets =
  ui_analysis_mode :: analysis_mode
  ui_main_lens_category :: "string option"
  ui_specific_lens :: "string option"
  ui_lens_a :: "string option"
  ui_lens_b :: "string option"
  ui_selected_categories :: "string list"
  ui_selected_lenses :: "string list"
  ui_api_key :: string
  ui_button :: bool
  ui_work_a :: WorkInput
  ui_work_b :: WorkInput
  ui_model_available :: bool

text \<open>The sidebar: what each mode stores in the selection.\<close>

definition single_selection :: "widgets \<Rightarrow> selection" where
  "single_selection ui =
     (if truthy (ui_main_lens_category ui)
      then (case ui_specific_lens ui of
              None \<Rightarrow> NoSelection
            | Some lens \<Rightarrow> if lens \<noteq> [] then Lens lens else NoSelection)
      else NoSelection)"

definition dialectical_selection :: "widgets \<Rightarrow> selection" where
  "dialectical_selection ui =
     (case (ui_lens_a ui, ui_lens_b ui) of
        (Some lens_a, Some lens_b) \<Rightarrow>
          (if lens_a \<noteq> [] \<and> lens_b \<noteq> []
           then (if lens_a = lens_b then Lenses [] else Lenses [lens_a, lens_b])
           else Lenses [])
      | _ \<Rightarrow> Lenses [])"

definition symposium_selection :: "widgets \<Rightarrow> selection" where
  "symposium_selection ui =
     (let min_selections = 3;
          selected_lenses = ui_selected_lenses ui
      in if ui_selected_categories ui \<noteq> []
         then (if length selected_lenses > 0 \<and> length selected_lenses < min_selections
               then Lenses []
               else if length selected_lenses \<ge> min_selections then Lenses selected_lenses
               else Lenses [])
         else Lenses [])"

definition sidebar_selection :: "widgets \<Rightarrow> selection" where
  "sidebar_selection ui =
     (case ui_analysis_mode ui of
        A_SINGLE \<Rightarrow> single_selection ui
      | A_COMPARATIVE \<Rightarrow> single_selection ui
      | A_DIALECTICAL \<Rightarrow> dialectical_selection ui
      | A_SYMPOSIUM \<Rightarrow> symposium_selection ui)"

text \<open>Truthiness and \<open>len\<close> of a selection; \<open>len\<close> is only taken of a truthy one.\<close>

definition selection_truthy :: "selection \<Rightarrow> bool" where
  "selection_truthy sel =
     (case sel of NoSelection \<Rightarrow> False | Lens lens \<Rightarrow> lens \<noteq> [] | Lenses ls \<Rightarrow> ls \<noteq> [])"

definition selection_len :: "selection \<Rightarrow> nat" where
  "selection_len sel =
     (case sel of NoSelection \<Rightarrow> 0 | Lens lens \<Rightarrow> length lens | Lenses ls \<Rightarrow> length ls)"

text \<open>The gate of the main page: whether the analysis form, and so the button, is shown.\<close>

definition display_analysis_form :: "analysis_mode \<Rightarrow> selection \<Rightarrow> bool" where
  "display_analysis_form mode sel =
     (case mode of
        A_SINGLE \<Rightarrow> selection_truthy sel
      | A_DIALECTICAL \<Rightarrow> selection_truthy sel \<and> selection_len sel = 2
      | A_SYMPOSIUM \<Rightarrow> selection_truthy sel \<and> selection_len sel \<ge> 3
      | A_COMPARATIVE \<Rightarrow> selection_truthy sel)"

text \<open>
  The execution block. A selection whose shape does not fit the mode is a \<open>TypeError\<close>
  here; the sidebar of the same run rules it out.
\<close>

definition execution_block ::
  "env \<Rightarrow> analysis_mode \<Rightarrow> selection \<Rightarrow> WorkInput \<Rightarrow> WorkInput \<Rightarrow> world
     \<Rightarrow> py_error + step list \<times> world" where
  "execution_block e mode sel work_a work_b w =
     (case mode of
        A_SINGLE \<Rightarrow>
          (case sel of
             Lens lens_keyword \<Rightarrow>
               (case generate_analysis e lens_keyword work_a w of
                  (analysis_text, w1) \<Rightarrow> Inr ([Analysis lens_keyword work_a analysis_text], w1))
           | _ \<Rightarrow> Inl TypeError)
      | A_DIALECTICAL \<Rightarrow>
          (case sel of
             Lenses ls \<Rightarrow>
               (case index ls 0 of
                  Inl err \<Rightarrow> Inl err
                | Inr lens_a_name \<Rightarrow>
                    (case index ls 1 of
                       Inl err \<Rightarrow> Inl err
                     | Inr lens_b_name \<Rightarrow> Inr (dialectical_execution e lens_a_name lens_b_name work_a w)))
           | _ \<Rightarrow> Inl TypeError)
      | A_SYMPOSIUM \<Rightarrow>
          (case sel of
             Lenses selected_lenses \<Rightarrow> Inr (symposium_execution e selected_lenses work_a w)
           | _ \<Rightarrow> Inl TypeError)
      | A_COMPARATIVE \<Rightarrow>
          (case sel of
             Lens lens_name \<Rightarrow> Inr (comparative_execution e lens_name work_a work_b w)
           | _ \<Rightarrow> Inl TypeError))"

text \<open>
  One run of the script: the sidebar sets the selection, the gate decides whether the
  form is shown, and a press of the button runs the execution block when the API key is
  set, the works are ready and a model is available. When the radio button and the mode
  of the session state differ, the script stores the new mode and reruns at once, so in
  the run that reaches the gate the two agree: \<open>ui_analysis_mode\<close> is that mode.
\<close>

definition script_run :: "env \<Rightarrow> widgets \<Rightarrow> world \<Rightarrow> py_error + step list \<times> world" where
  "script_run e ui w =
     (let sel = sidebar_selection ui;
          mode = ui_analysis_mode ui
      in if display_analysis_form mode sel \<and> ui_button ui
         then (let is_valid = (ui_api_key ui \<noteq> [] \<and> is_ready (ui_work_a ui)
                               \<and> \<not> (mode = A_COMPARATIVE \<and> \<not> is_ready (ui_work_b ui)))
               in if is_valid \<and> ui_model_available ui
                  then execution_block e mode sel (ui_work_a ui) (ui_work_b ui) w
                  else Inr ([], w))
         else Inr ([], w))"

section \<open>Simulated collaborators\<close>

text \<open>
  Concrete works, stores and services on which the theorems below are run. The service
  \<open>silent_service\<close> has a file store that answers every poll with \<open>PROCESSING\<close>, a
  generation service that fails, and no guess for any file name; the others vary it.
\<close>

definition world0 :: world where
  "world0 = \<lparr>calls = [], clock = 0, logged = []\<rparr>"

definition handle :: "string \<Rightarrow> remote_file" where
  "handle st = \<lparr>rf_name = ''files/w1'', rf_uri = ''https://files/w1'', rf_state = st\<rparr>"

definition silent_service :: env where
  "silent_service =
     \<lparr>guess_type = (\<lambda>file_name. None),
      upload_response = Inr (handle ''PROCESSING''),
      get_response = (\<lambda>k. Inr (handle ''PROCESSING'')),
      get_duration = (\<lambda>k. 0),
      delete_raises = False,
      generate_response = (\<lambda>k cs. None),
      meta_prompt = (\<lambda>lens_keyword work_modality. ''Design a strategy for '' @ lens_keyword),
      image_instruction = ''You are analyzing a visual artwork.'',
      audio_instruction = ''You are analyzing an audio work.'',
      dialectical_prompt = (\<lambda>lens_a_name analysis_a lens_b_name analysis_b work_title.
        lens_a_name @ analysis_a @ lens_b_name @ analysis_b),
      symposium_prompt = (\<lambda>analyses_dict work_title. concat (map snd analyses_dict)),
      comparative_prompt = (\<lambda>lens_name analysis_a work_a_title analysis_b work_b_title.
        lens_name @ analysis_a @ analysis_b)\<rparr>"

definition active_after_two_polls :: env where
  "active_after_two_polls =
     silent_service\<lparr>get_response :=
       (\<lambda>k. Inr (handle (if k = 0 then ''PROCESSING'' else ''ACTIVE'')))\<rparr>"

definition failed_at_first_poll :: env where
  "failed_at_first_poll = silent_service\<lparr>get_response := (\<lambda>k. Inr (handle ''FAILED''))\<rparr>"

definition active_at_once :: env where
  "active_at_once = silent_service\<lparr>upload_response := Inr (handle ''ACTIVE'')\<rparr>"

definition answering_service :: env where
  "answering_service =
     silent_service\<lparr>upload_response := Inr (handle ''ACTIVE''),
                    generate_response := (\<lambda>k cs. Some ''An analysis.'')\<rparr>"

definition fails_from_third_call :: env where
  "fails_from_third_call =
     silent_service\<lparr>generate_response := (\<lambda>k cs. if k < 2 then Some ''An analysis.'' else None)\<rparr>"

definition audio_work :: WorkInput where
  "audio_work =
     \<lparr>title = ''Nocturne'', modality = M_AUDIO, data = None,
      uploaded_file_obj = Some \<lparr>uf_type = Some ''audio/mpeg'', uf_name = ''nocturne.mp3''\<rparr>\<rparr>"

definition untyped_work :: WorkInput where
  "untyped_work =
     \<lparr>title = '''', modality = M_IMAGE, data = None,
      uploaded_file_obj = Some \<lparr>uf_type = Some ''application/octet-stream'', uf_name = ''scan''\<rparr>\<rparr>"

definition text_work :: WorkInput where
  "text_work =
     \<lparr>title = '''', modality = M_TEXT, data = Some ''The sun set over the ruins.'',
      uploaded_file_obj = None\<rparr>"

definition small_catalog_V5 :: lenses_V5 where
  "small_catalog_V5 =
     [(''Structural & Formalist'',
         \<lparr>description = ''A formalist analysis.'', sub_lenses = None,
          prompt = Some ''Analyze the form.''\<rparr>),
      (''Psychological'',
         \<lparr>description = ''An inquiry into symbolic currents.'',
          sub_lenses = Some [(''Jungian'', ''Use a Jungian lens.''),
                             (''Freudian'', ''Use a Freudian lens.'')],
          prompt = None\<rparr>)]"

text \<open>A run of the script in symposium mode on a text work, and one in dialectical mode.\<close>

definition symposium_ui :: widgets where
  "symposium_ui =
     \<lparr>ui_analysis_mode = A_SYMPOSIUM,
      ui_main_lens_category = None, ui_specific_lens = None,
      ui_lens_a = None, ui_lens_b = None,
      ui_selected_categories = [''Psychological'', ''Socio-Political''],
      ui_selected_lenses = [''Jungian'', ''Marxist'', ''Feminist''],
      ui_api_key = ''key'', ui_button = True,
      ui_work_a = text_work, ui_work_b = text_work,
      ui_model_available = True\<rparr>"

definition dialectical_ui :: widgets where
  "dialectical_ui =
     symposium_ui\<lparr>ui_analysis_mode := A_DIALECTICAL,
                  ui_lens_a := Some ''Jungian'', ui_lens_b := Some ''Marxist''\<rparr>"

section \<open>Properties of the persona namer\<close>

lemma split_acc_length: "length (split_acc sep acc s) = Suc (length (filter (\<lambda>c. c = sep) s))"
  by (induction s arbitrary: acc) auto

lemma str_contains_single: "str_contains [c] s \<longleftrightarrow> c \<in> set s"
  by (induction s) auto

lemma split_two_pieces:
  assumes "sep \<in> set s"
  shows "1 < length (split s sep)"
proof -
  from assms have "filter (\<lambda>c. c = sep) s \<noteq> []"
    by (auto simp: filter_empty_conv)
  then have "0 < length (filter (\<lambda>c. c = sep) s)"
    by simp
  then show ?thesis
    by (simp add: split_def split_acc_length)
qed

lemma core_term_total: "\<exists>name. core_term lens_name = Inr name"
proof (cases "str_contains ''('' lens_name")
  case True
  then have "1 < length (split lens_name CHR ''('')"
    using split_two_pieces [of "CHR ''(''" lens_name] by (simp add: str_contains_single)
  with True show ?thesis
    by (simp add: core_term_def index_def)
next
  case False
  then show ?thesis by (simp add: core_term_def)
qed

lemma persona_title_The: "prefix ''The '' (persona_title name)"
  unfolding persona_title_def by (simp split: if_split)

lemma persona_title_V3_The: "prefix ''The '' (persona_title_V3 name)"
  unfolding persona_title_V3_def by (simp split: if_split)

lemma prefix_The_nonempty: "prefix ''The '' t \<Longrightarrow> t \<noteq> []"
  by auto

lemma create_persona_name_total:
  "\<exists>title. create_persona_name lens_name = Inr title \<and> prefix ''The '' title"
proof -
  obtain name where "core_term lens_name = Inr name"
    using core_term_total by blast
  then show ?thesis
    by (simp add: create_persona_name_def persona_title_The)
qed

lemma create_persona_name_V3_total:
  "\<exists>title. create_persona_name_V3 lens_name = Inr title \<and> prefix ''The '' title"
proof -
  obtain name where "core_term lens_name = Inr name"
    using core_term_total by blast
  then show ?thesis
    by (simp add: create_persona_name_V3_def persona_title_V3_The)
qed

lemma core_term_Marxist: "core_term ''Socio-Political (Marxist)'' = Inr ''Marxist''"
  by (simp add: core_term_def split_def index_def replace_def)

text \<open>
  Claim C7. The persona namer never fails and always returns a non-empty title (one that
  starts with \<open>The\<close>), in the V5 engine and in the V3 one; being a function of the lens
  key alone, two calls with one key give one title. For the composite key
  \<open>Socio-Political (Marxist)\<close> the title is \<open>The Marxist Critic\<close>, which contains
  \<open>Marxist\<close> and ends in \<open>Critic\<close>.
\<close>

theorem create_persona_name_total_nonempty:
  "(\<exists>title. create_persona_name lens_key = Inr title \<and> title \<noteq> [])
   \<and> (\<exists>title. create_persona_name_V3 lens_key = Inr title \<and> title \<noteq> [])
   \<and> create_persona_name ''Socio-Political (Marxist)'' = Inr ''The Marxist Critic''
   \<and> create_persona_name_V3 ''Socio-Political (Marxist)'' = Inr ''The Marxist Critic''
   \<and> sublist ''Marxist'' ''The Marxist Critic''
   \<and> suffix ''Critic'' ''The Marxist Critic''"
proof -
  have v5: "\<exists>title. create_persona_name lens_key = Inr title \<and> title \<noteq> []"
    using create_persona_name_total [of lens_key] prefix_The_nonempty by blast
  have v3: "\<exists>title. create_persona_name_V3 lens_key = Inr title \<and> title \<noteq> []"
    using create_persona_name_V3_total [of lens_key] prefix_The_nonempty by blast
  have m5: "create_persona_name ''Socio-Political (Marxist)'' = Inr ''The Marxist Critic''"
    by (simp add: create_persona_name_def core_term_Marxist persona_title_def)
  have m3: "create_persona_name_V3 ''Socio-Political (Marxist)'' = Inr ''The Marxist Critic''"
    by (simp add: create_persona_name_V3_def core_term_Marxist persona_title_V3_def)
  have sub: "sublist ''Marxist'' ''The Marxist Critic''"
    by (simp add: sublist_Cons_right)
  have suf: "suffix ''Critic'' ''The Marxist Critic''"
    by (simp add: suffix_to_prefix)
  from v5 v3 m5 m3 sub suf show ?thesis
    by blast
qed

section \<open>Properties of the flattener\<close>

lemma set_flatten_lenses: "set (flatten_lenses h) = set (flat_lenses h)"
  by (simp add: flatten_lenses_def)

lemma sorted_flatten_lenses: "sorted (flatten_lenses h)"
  by (simp add: flatten_lenses_def)

lemma distinct_flatten_lenses: "distinct (flatten_lenses h)"
  by (simp add: flatten_lenses_def)

lemma in_flat_lenses:
  "x \<in> set (flat_lenses h) \<longleftrightarrow> (\<exists>category lens_list. (category, lens_list) \<in> set h \<and> x \<in> set lens_list)"
  by (force simp: flat_lenses_def)

lemma count_list_distinct:
  "distinct xs \<Longrightarrow> x \<in> set xs \<Longrightarrow> count_list xs x = 1"
  by (induction xs) auto

lemma count_list_member: "x \<in> set xs \<Longrightarrow> 1 \<le> count_list xs x"
  using count_list_0_iff [of xs x] by (cases "count_list xs x") auto

lemma fold_update_keys:
  "fst ` set (fold (\<lambda>(k, v) flat. AList.update (F k) (G v) flat) kvs flat)
     = fst ` set flat \<union> F ` fst ` set kvs
   \<and> (distinct (map fst flat)
        \<longrightarrow> distinct (map fst (fold (\<lambda>(k, v) flat. AList.update (F k) (G v) flat) kvs flat)))"
proof (induction kvs arbitrary: flat)
  case Nil
  then show ?case by simp
next
  case (Cons kv kvs)
  obtain k v where kv: "kv = (k, v)" by (cases kv)
  from Cons [of "AList.update (F k) (G v) flat"] show ?case
    by (auto simp: kv dom_update distinct_update)
qed

lemma case_prod_image: "(\<lambda>(k, v). F k) ` S = F ` fst ` S"
  by force

lemma flatten_category_keys:
  "fst ` set (fold (flatten_category dedent) lenses flat) = fst ` set flat \<union> set (leaf_keys_V5 lenses)
   \<and> (distinct (map fst flat) \<longrightarrow> distinct (map fst (fold (flatten_category dedent) lenses flat)))"
proof (induction lenses arbitrary: flat)
  case Nil
  then show ?case by (simp add: leaf_keys_V5_def)
next
  case (Cons c lenses)
  obtain main_lens d where c: "c = (main_lens, d)" by (cases c)
  have one: "fst ` set (flatten_category dedent c flat) = fst ` set flat \<union> set (leaf_keys_V5 [c])
      \<and> (distinct (map fst flat) \<longrightarrow> distinct (map fst (flatten_category dedent c flat)))"
  proof (cases "sub_lenses d")
    case (Some subs)
    have keys: "leaf_keys_V5 [c] = map (\<lambda>(sub_lens, p). main_lens @ '' ('' @ sub_lens @ '')'') subs"
      using Some by (simp add: c leaf_keys_V5_def)
    have step: "flatten_category dedent c flat =
        fold (\<lambda>(sub_lens, p) flat.
                AList.update (main_lens @ '' ('' @ sub_lens @ '')'') (strip (dedent p)) flat) subs flat"
      using Some by (simp add: c flatten_category_def)
    from fold_update_keys [of "\<lambda>sub_lens. main_lens @ '' ('' @ sub_lens @ '')''"
        "\<lambda>p. strip (dedent p)" subs flat]
    show ?thesis
      unfolding step keys by (simp add: case_prod_image)
  next
    case None
    then show ?thesis
      by (cases "prompt d") (auto simp: c flatten_category_def leaf_keys_V5_def dom_update distinct_update)
  qed
  have app: "leaf_keys_V5 (c # lenses) = leaf_keys_V5 [c] @ leaf_keys_V5 lenses"
    by (simp add: leaf_keys_V5_def)
  from Cons [of "flatten_category dedent c flat"] one show ?case
    by (auto simp: app)
qed

lemma flatten_lenses_V5_keys:
  "set (map fst (flatten_lenses_V5 dedent lenses)) = set (leaf_keys_V5 lenses)
   \<and> distinct (map fst (flatten_lenses_V5 dedent lenses))"
  using flatten_category_keys [of dedent lenses "[]"]
  by (simp add: flatten_lenses_V5_def)


lemma SORTED_LENS_NAMES_V5_keys:
  "sorted (SORTED_LENS_NAMES_V5 dedent lenses) \<and> distinct (SORTED_LENS_NAMES_V5 dedent lenses)
   \<and> set (SORTED_LENS_NAMES_V5 dedent lenses) = set (leaf_keys_V5 lenses)"
  using flatten_lenses_V5_keys [of dedent lenses]
  by (simp add: SORTED_LENS_NAMES_V5_def)

text \<open>
  Claim C6, as stated, fails: a lens name listed under two categories is one entry of the
  flattened list and is the name of two leaves of the catalog.
\<close>

theorem flatten_lenses_two_leaves_counterexample:
  "flatten_lenses [(''Structural & Formalist'', [''Formalist'']),
                   (''Art History & Aesthetics'', [''Formalist''])] = [''Formalist'']
   \<and> count_list (flat_lenses [(''Structural & Formalist'', [''Formalist'']),
                               (''Art History & Aesthetics'', [''Formalist''])]) ''Formalist'' = 2"
  by (simp add: flatten_lenses_def flat_lenses_def)

text \<open>
  Claim C6, amended. For every catalog, \<open>flatten_lenses\<close> returns a sorted list without
  duplicates whose entries are exactly the lens names listed under some category of the
  catalog. Every entry names at least one leaf; it names exactly one leaf when no lens name
  is listed twice in the catalog. The same holds of the sorted lens names of the V5
  engine, whose entries are the keys of the leaves of its catalog.
\<close>

theorem flatten_lenses_sorted_unique_leaves:
  "sorted (flatten_lenses h) \<and> distinct (flatten_lenses h)
   \<and> (\<forall>x. x \<in> set (flatten_lenses h) \<longleftrightarrow>
          (\<exists>category lens_list. (category, lens_list) \<in> set h \<and> x \<in> set lens_list))
   \<and> (\<forall>x \<in> set (flatten_lenses h). 1 \<le> count_list (flat_lenses h) x)
   \<and> (distinct (flat_lenses h) \<longrightarrow>
        (\<forall>x \<in> set (flatten_lenses h). count_list (flat_lenses h) x = 1))
   \<and> sorted (SORTED_LENS_NAMES_V5 dedent lenses) \<and> distinct (SORTED_LENS_NAMES_V5 dedent lenses)
   \<and> set (SORTED_LENS_NAMES_V5 dedent lenses) = set (leaf_keys_V5 lenses)
   \<and> (\<forall>x \<in> set (SORTED_LENS_NAMES_V5 dedent lenses). 1 \<le> count_list (leaf_keys_V5 lenses) x)
   \<and> (distinct (leaf_keys_V5 lenses) \<longrightarrow>
        (\<forall>x \<in> set (SORTED_LENS_NAMES_V5 dedent lenses). count_list (leaf_keys_V5 lenses) x = 1))"
proof -
  note v5 = SORTED_LENS_NAMES_V5_keys [of dedent lenses]
  have some5: "\<forall>x \<in> set (SORTED_LENS_NAMES_V5 dedent lenses). 1 \<le> count_list (leaf_keys_V5 lenses) x"
    using count_list_member [of _ "leaf_keys_V5 lenses"] v5 by auto
  have one5: "distinct (leaf_keys_V5 lenses) \<longrightarrow>
      (\<forall>x \<in> set (SORTED_LENS_NAMES_V5 dedent lenses). count_list (leaf_keys_V5 lenses) x = 1)"
    using count_list_distinct [of "leaf_keys_V5 lenses"] v5 by auto
  have reach: "\<forall>x. x \<in> set (flatten_lenses h) \<longleftrightarrow>
      (\<exists>category lens_list. (category, lens_list) \<in> set h \<and> x \<in> set lens_list)"
    by (simp add: set_flatten_lenses in_flat_lenses)
  have some: "\<forall>x \<in> set (flatten_lenses h). 1 \<le> count_list (flat_lenses h) x"
    using count_list_member [of _ "flat_lenses h"] by (auto simp: set_flatten_lenses)
  have one: "distinct (flat_lenses h) \<longrightarrow>
      (\<forall>x \<in> set (flatten_lenses h). count_list (flat_lenses h) x = 1)"
    using count_list_distinct [of "flat_lenses h"] by (auto simp: set_flatten_lenses)
  from reach some one v5 some5 one5 show ?thesis
    using sorted_flatten_lenses [of h] distinct_flatten_lenses [of h] by (intro conjI) blast+
qed

lemma distinct_LENSES_HIERARCHY: "distinct (flat_lenses LENSES_HIERARCHY)"
  by (simp add: flat_lenses_def LENSES_HIERARCHY_def)

lemma Marxist_in_LENSES_HIERARCHY: "''Marxist'' \<in> set (flat_lenses LENSES_HIERARCHY)"
  by (simp add: flat_lenses_def LENSES_HIERARCHY_def)

lemma small_catalog_V5_keys:
  "leaf_keys_V5 small_catalog_V5 =
     [''Structural & Formalist'', ''Psychological (Jungian)'', ''Psychological (Freudian)'']"
  by (simp add: leaf_keys_V5_def small_catalog_V5_def)

theorem flatten_lenses_sorted_unique_leaves_witness:
  "distinct (flat_lenses LENSES_HIERARCHY)
   \<and> ''Marxist'' \<in> set (flatten_lenses LENSES_HIERARCHY)
   \<and> count_list (flat_lenses LENSES_HIERARCHY) ''Marxist'' = 1
   \<and> sorted (flatten_lenses LENSES_HIERARCHY) \<and> distinct (flatten_lenses LENSES_HIERARCHY)
   \<and> distinct (leaf_keys_V5 small_catalog_V5)
   \<and> ''Psychological (Jungian)'' \<in> set (SORTED_LENS_NAMES_V5 (\<lambda>p. p) small_catalog_V5)
   \<and> count_list (leaf_keys_V5 small_catalog_V5) ''Psychological (Jungian)'' = 1"
  using flatten_lenses_sorted_unique_leaves [of LENSES_HIERARCHY "\<lambda>p. p" small_catalog_V5]
    distinct_LENSES_HIERARCHY Marxist_in_LENSES_HIERARCHY
  by (simp add: set_flatten_lenses small_catalog_V5_keys)

section \<open>Properties of the functional regrouping\<close>

lemma create_functional_mapping_warnings:
  "fst (create_functional_mapping h) =
     (if set (flat_lenses h) \<subseteq> set (flat_lenses functional_mapping) then []
      else [set (flat_lenses h) - set (flat_lenses functional_mapping)])"
  by (simp add: create_functional_mapping_def Let_def set_flatten_lenses)

lemma create_functional_mapping_result:
  "snd (create_functional_mapping h) = map (\<lambda>(key, lenses). (key, sort lenses)) functional_mapping"
  by (simp add: create_functional_mapping_def Let_def)

lemma Historical_Context_in_functional_mapping:
  "''Historical Context'' \<in> set (flat_lenses functional_mapping)"
  by (simp add: flat_lenses_def functional_mapping_def)

lemma Biographical_in_functional_mapping:
  "''Biographical'' \<in> set (flat_lenses functional_mapping)"
  by (simp add: flat_lenses_def functional_mapping_def)

text \<open>
  Claim C5, as stated, fails in one direction: \<open>Historical Context\<close> is covered by the
  tier assignment and is absent from a catalog that lists \<open>Biographical\<close> alone, and no
  warning is logged.
\<close>

theorem create_functional_mapping_tier_only_counterexample:
  "''Historical Context'' \<in> set (flatten_lenses functional_mapping)
   \<and> ''Historical Context'' \<notin> set (flatten_lenses [(''Historical & Contextual'', [''Biographical''])])
   \<and> fst (create_functional_mapping [(''Historical & Contextual'', [''Biographical''])]) = []"
proof -
  have "set (flat_lenses [(''Historical & Contextual'', [''Biographical''])]) = {''Biographical''}"
    by (simp add: flat_lenses_def)
  then show ?thesis
    using Historical_Context_in_functional_mapping Biographical_in_functional_mapping
    by (simp add: create_functional_mapping_warnings set_flatten_lenses)
qed

text \<open>
  Claim C5, amended. The regrouping checks one direction: it logs at most one warning,
  which names exactly the catalog leaves that the tier assignment does not cover, and logs
  none when every catalog leaf is covered. A leaf of the tier assignment that is absent
  from the catalog is never named. The warning is not an error: whatever the catalog, the
  tier assignment is returned with every tier sorted.
\<close>

theorem create_functional_mapping_warns_catalog_leaves:
  "(\<forall>x. (\<exists>missing \<in> set (fst (create_functional_mapping h)). x \<in> missing) \<longleftrightarrow>
         (x \<in> set (flatten_lenses h) \<and> x \<notin> set (flatten_lenses functional_mapping)))
   \<and> length (fst (create_functional_mapping h)) \<le> 1
   \<and> (fst (create_functional_mapping h) = [] \<longleftrightarrow>
        set (flatten_lenses h) \<subseteq> set (flatten_lenses functional_mapping))
   \<and> snd (create_functional_mapping h) =
        map (\<lambda>(key, lenses). (key, sort lenses)) functional_mapping
   \<and> (\<forall>(key, lenses) \<in> set (snd (create_functional_mapping h)). sorted lenses)"
proof -
  let ?w = "fst (create_functional_mapping h)"
  have named: "\<forall>x. (\<exists>missing \<in> set ?w. x \<in> missing) \<longleftrightarrow>
      (x \<in> set (flatten_lenses h) \<and> x \<notin> set (flatten_lenses functional_mapping))"
    by (auto simp: create_functional_mapping_warnings set_flatten_lenses)
  have atmost: "length ?w \<le> 1"
    by (simp add: create_functional_mapping_warnings)
  have none: "?w = [] \<longleftrightarrow> set (flatten_lenses h) \<subseteq> set (flatten_lenses functional_mapping)"
    by (simp add: create_functional_mapping_warnings set_flatten_lenses)
  have tiers: "\<forall>(key, lenses) \<in> set (snd (create_functional_mapping h)). sorted lenses"
    by (auto simp: create_functional_mapping_result)
  from named atmost none tiers show ?thesis
    using create_functional_mapping_result [of h] by blast
qed

lemma LENSES_HIERARCHY_covered:
  "set (flat_lenses LENSES_HIERARCHY) \<subseteq> set (flat_lenses functional_mapping)"
  by (simp add: flat_lenses_def LENSES_HIERARCHY_def functional_mapping_def)

lemma Dadaism_not_in_functional_mapping:
  "''Dadaism'' \<notin> set (flat_lenses functional_mapping)"
  by (simp add: flat_lenses_def functional_mapping_def)

theorem create_functional_mapping_warns_catalog_leaves_witness:
  "''Dadaism'' \<in> set (flatten_lenses ((''Avant-Garde'', [''Dadaism'']) # LENSES_HIERARCHY))
   \<and> ''Dadaism'' \<notin> set (flatten_lenses functional_mapping)
   \<and> (\<exists>missing \<in> set (fst (create_functional_mapping
          ((''Avant-Garde'', [''Dadaism'']) # LENSES_HIERARCHY))). ''Dadaism'' \<in> missing)
   \<and> fst (create_functional_mapping LENSES_HIERARCHY) = []"
proof -
  have a: "''Dadaism'' \<in> set (flatten_lenses ((''Avant-Garde'', [''Dadaism'']) # LENSES_HIERARCHY))"
    by (simp add: set_flatten_lenses flat_lenses_def)
  have b: "''Dadaism'' \<notin> set (flatten_lenses functional_mapping)"
    using Dadaism_not_in_functional_mapping by (simp add: set_flatten_lenses)
  have c: "set (flatten_lenses LENSES_HIERARCHY) \<subseteq> set (flatten_lenses functional_mapping)"
    using LENSES_HIERARCHY_covered by (simp add: set_flatten_lenses)
  from a b c show ?thesis
    using create_functional_mapping_warns_catalog_leaves
            [of "(''Avant-Garde'', [''Dadaism'']) # LENSES_HIERARCHY"]
          create_functional_mapping_warns_catalog_leaves [of LENSES_HIERARCHY]
    by blast
qed

section \<open>Properties of the media uploader\<close>

declare poll_loop.simps [simp del]

lemma count_calls_sleep [simp]: "count_calls kind (sleep secs w) = count_calls kind w"
  by (simp add: count_calls_def sleep_def)

lemma count_calls_log [simp]: "count_calls kind (log r w) = count_calls kind w"
  by (simp add: count_calls_def log_def)

lemma count_calls_call [simp]:
  "count_calls kind (call c w) = (if kind c then Suc (count_calls kind w) else count_calls kind w)"
  by (simp add: count_calls_def call_def)

lemma clock_sleep [simp]: "clock (sleep secs w) = clock w + secs"
  by (simp add: sleep_def)

lemma clock_call [simp]: "clock (call c w) = clock w"
  by (simp add: call_def)

lemma clock_log [simp]: "clock (log r w) = clock w"
  by (simp add: log_def)

lemma logged_sleep [simp]: "logged (sleep secs w) = logged w"
  by (simp add: sleep_def)

lemma logged_call [simp]: "logged (call c w) = logged w"
  by (simp add: call_def)

lemma calls_sleep [simp]: "calls (sleep secs w) = calls w"
  by (simp add: sleep_def)

lemma calls_log [simp]: "calls (log r w) = calls w"
  by (simp add: log_def)

lemma calls_call [simp]: "calls (call c w) = calls w @ [c]"
  by (simp add: call_def)

lemma is_kind_simps [simp]:
  "is_upload (UploadFile d m)" "\<not> is_upload (GetFile n)" "\<not> is_upload (DeleteFile n)"
  "\<not> is_upload (GenerateContent cs)"
  "\<not> is_get (UploadFile d m)" "is_get (GetFile n)" "\<not> is_get (DeleteFile n)"
  "\<not> is_get (GenerateContent cs)"
  "\<not> is_delete (UploadFile d m)" "\<not> is_delete (GetFile n)" "is_delete (DeleteFile n)"
  "\<not> is_delete (GenerateContent cs)"
  "\<not> is_generate (UploadFile d m)" "\<not> is_generate (GetFile n)" "\<not> is_generate (DeleteFile n)"
  "is_generate (GenerateContent cs)"
  by (simp_all add: is_upload_def is_get_def is_delete_def is_generate_def)

lemma poll_loop_terminal:
  "rf_state f \<noteq> ''PROCESSING'' \<Longrightarrow> poll_loop e s f w = (Inr f, w)"
  by (simp add: poll_loop.simps)

lemma poll_loop_step:
  assumes "rf_state f = ''PROCESSING''" and "clock w - s \<le> TIMEOUT"
    and "get_response e (count_calls is_get w) = Inr f'"
  shows "poll_loop e s f w =
           poll_loop e s f' (sleep (int (get_duration e (count_calls is_get w)))
                               (call (GetFile (rf_name f)) (sleep POLL_INTERVAL w)))"
  using assms by (subst poll_loop.simps) (simp add: Let_def)

lemma sum_shift:
  fixes F :: "nat \<Rightarrow> int"
  shows "(\<Sum>i<Suc n. F (g + i)) = F g + (\<Sum>i<n. F (Suc g + i))"
  using sum.lessThan_Suc_shift [of "\<lambda>i. F (g + i)" n] by (simp del: sum.lessThan_Suc)

text \<open>
  A store that answers \<open>n\<close> polls with \<open>PROCESSING\<close> and the next one with another state,
  within the ceiling: the loop returns that handle after \<open>n + 1\<close> polls, each one after a
  sleep of \<open>POLL_INTERVAL\<close> seconds.
\<close>

lemma poll_loop_leaves_processing:
  assumes "rf_state f0 = ''PROCESSING''"
    and "\<forall>i<n. \<exists>fi. get_response e (count_calls is_get w + i) = Inr fi \<and> rf_state fi = ''PROCESSING''"
    and "get_response e (count_calls is_get w + n) = Inr ft"
    and "rf_state ft \<noteq> ''PROCESSING''"
    and "clock w - s + (\<Sum>i<n. POLL_INTERVAL + int (get_duration e (count_calls is_get w + i))) \<le> TIMEOUT"
  shows "\<exists>w'. poll_loop e s f0 w = (Inr ft, w')
           \<and> count_calls is_get w' = count_calls is_get w + Suc n
           \<and> count_calls is_delete w' = count_calls is_delete w
           \<and> count_calls is_upload w' = count_calls is_upload w
           \<and> clock w' = clock w + (\<Sum>i<Suc n. POLL_INTERVAL + int (get_duration e (count_calls is_get w + i)))"
  using assms
proof (induction n arbitrary: f0 w)
  case 0
  let ?w2 = "sleep (int (get_duration e (count_calls is_get w)))
               (call (GetFile (rf_name f0)) (sleep POLL_INTERVAL w))"
  from 0 have "poll_loop e s f0 w = poll_loop e s ft ?w2"
    by (intro poll_loop_step) simp_all
  with 0 have "poll_loop e s f0 w = (Inr ft, ?w2)"
    by (simp add: poll_loop_terminal)
  then show ?case by simp
next
  case (Suc n)
  let ?g = "count_calls is_get w"
  let ?w2 = "sleep (int (get_duration e ?g)) (call (GetFile (rf_name f0)) (sleep POLL_INTERVAL w))"
  from Suc.prems(2) obtain f1 where f1: "get_response e ?g = Inr f1" "rf_state f1 = ''PROCESSING''"
    by force
  have nonneg: "0 \<le> (\<Sum>i<Suc n. POLL_INTERVAL + int (get_duration e (?g + i)))"
    by (rule sum_nonneg) (simp add: POLL_INTERVAL_def)
  with Suc.prems(5) have now: "clock w - s \<le> TIMEOUT"
    by linarith
  have step: "poll_loop e s f0 w = poll_loop e s f1 ?w2"
    using Suc.prems(1) now f1(1) by (rule poll_loop_step)
  have g2: "count_calls is_get ?w2 = Suc ?g"
    by simp
  have shift: "(\<Sum>i<Suc n. POLL_INTERVAL + int (get_duration e (?g + i)))
      = POLL_INTERVAL + int (get_duration e ?g) + (\<Sum>i<n. POLL_INTERVAL + int (get_duration e (Suc ?g + i)))"
    by (rule sum_shift [of "\<lambda>k. POLL_INTERVAL + int (get_duration e k)"])
  have shift2: "(\<Sum>i<Suc (Suc n). POLL_INTERVAL + int (get_duration e (?g + i)))
      = POLL_INTERVAL + int (get_duration e ?g) + (\<Sum>i<Suc n. POLL_INTERVAL + int (get_duration e (Suc ?g + i)))"
    by (rule sum_shift [of "\<lambda>k. POLL_INTERVAL + int (get_duration e k)"])
  have p2: "\<forall>i<n. \<exists>fi. get_response e (count_calls is_get ?w2 + i) = Inr fi \<and> rf_state fi = ''PROCESSING''"
  proof (intro allI impI)
    fix i assume "i < n"
    then have "Suc i < Suc n" by simp
    with Suc.prems(2) have "\<exists>fi. get_response e (?g + Suc i) = Inr fi \<and> rf_state fi = ''PROCESSING''"
      by blast
    then show "\<exists>fi. get_response e (count_calls is_get ?w2 + i) = Inr fi \<and> rf_state fi = ''PROCESSING''"
      by simp
  qed
  have p3: "get_response e (count_calls is_get ?w2 + n) = Inr ft"
    using Suc.prems(3) by simp
  have p5: "clock ?w2 - s + (\<Sum>i<n. POLL_INTERVAL + int (get_duration e (count_calls is_get ?w2 + i))) \<le> TIMEOUT"
    using Suc.prems(5) shift by (simp del: sum.lessThan_Suc)
  from Suc.IH [OF f1(2) p2 p3 Suc.prems(4) p5]
  obtain w' where w': "poll_loop e s f1 ?w2 = (Inr ft, w')"
      "count_calls is_get w' = count_calls is_get ?w2 + Suc n"
      "count_calls is_delete w' = count_calls is_delete ?w2"
      "count_calls is_upload w' = count_calls is_upload ?w2"
      "clock w' = clock ?w2 + (\<Sum>i<Suc n. POLL_INTERVAL + int (get_duration e (count_calls is_get ?w2 + i)))"
    by blast
  have "clock w' = clock w + (\<Sum>i<Suc (Suc n). POLL_INTERVAL + int (get_duration e (?g + i)))"
    using w'(5) shift2 by (simp del: sum.lessThan_Suc)
  with step w'(1-4) show ?case
    by (simp del: sum.lessThan_Suc)
qed

text \<open>
  When no poll raises \<open>TimeoutError\<close>, a timeout is raised only when the time elapsed
  since the start exceeds the ceiling.
\<close>

lemma poll_loop_timeout_elapsed:
  "\<forall>k. get_response e k \<noteq> Inl TimeoutError \<Longrightarrow>
   fst (poll_loop e s f w) = Inl TimeoutError \<Longrightarrow> clock (snd (poll_loop e s f w)) - s > TIMEOUT"
proof (induction e s f w rule: poll_loop.induct)
  case (1 e s f w)
  show ?case
  proof (cases "rf_state f = ''PROCESSING'' \<and> clock w - s \<le> TIMEOUT")
    case False
    with "1.prems"(2) show ?thesis
      by (subst poll_loop.simps, subst (asm) poll_loop.simps) (auto split: if_splits)
  next
    case True
    let ?g = "count_calls is_get (sleep POLL_INTERVAL w)"
    let ?w2 = "sleep (int (get_duration e ?g)) (call (GetFile (rf_name f)) (sleep POLL_INTERVAL w))"
    show ?thesis
    proof (cases "get_response e ?g")
      case (Inl raised)
      with "1.prems"(1) have "raised \<noteq> TimeoutError"
        by metis
      with Inl True "1.prems"(2) show ?thesis
        by (subst (asm) poll_loop.simps) (simp add: Let_def)
    next
      case (Inr f')
      with True have eq: "poll_loop e s f w = poll_loop e s f' ?w2"
        by (subst poll_loop.simps) (simp add: Let_def)
      from True Inr "1.prems"(1) have "fst (poll_loop e s f' ?w2) = Inl TimeoutError \<Longrightarrow>
          clock (snd (poll_loop e s f' ?w2)) - s > TIMEOUT"
        by (intro "1.IH" [of "sleep POLL_INTERVAL w" ?g ?w2 f']) auto
      with eq "1.prems"(2) show ?thesis by simp
    qed
  qed
qed

text \<open>
  A poll that raises \<open>TimeoutError\<close> ends the loop with that exception at once, whatever
  the time elapsed.
\<close>

lemma poll_loop_get_file_times_out:
  assumes "rf_state f = ''PROCESSING''" and "clock w - s \<le> TIMEOUT"
    and "get_response e (count_calls is_get w) = Inl TimeoutError"
  shows "poll_loop e s f w =
           (Inl TimeoutError, sleep (int (get_duration e (count_calls is_get w)))
                                (call (GetFile (rf_name f)) (sleep POLL_INTERVAL w)))"
  using assms by (subst poll_loop.simps) (simp add: Let_def)

text \<open>A store that never leaves \<open>PROCESSING\<close>: the loop ends, and ends with the timeout.\<close>

lemma poll_loop_never_leaves:
  "\<forall>k. \<exists>fk. get_response e k = Inr fk \<and> rf_state fk = ''PROCESSING'' \<Longrightarrow>
   rf_state f = ''PROCESSING'' \<Longrightarrow> fst (poll_loop e s f w) = Inl TimeoutError"
proof (induction e s f w rule: poll_loop.induct)
  case (1 e s f w)
  show ?case
  proof (cases "clock w - s > TIMEOUT")
    case True
    with "1.prems"(2) show ?thesis
      by (subst poll_loop.simps) simp
  next
    case False
    let ?g = "count_calls is_get (sleep POLL_INTERVAL w)"
    let ?w2 = "sleep (int (get_duration e ?g)) (call (GetFile (rf_name f)) (sleep POLL_INTERVAL w))"
    from "1.prems"(1) obtain f' where f': "get_response e ?g = Inr f'" "rf_state f' = ''PROCESSING''"
      by blast
    with False "1.prems"(2) have eq: "poll_loop e s f w = poll_loop e s f' ?w2"
      by (subst poll_loop.simps) (simp add: Let_def)
    from False "1.prems" f' have "fst (poll_loop e s f' ?w2) = Inl TimeoutError"
      by (intro "1.IH" [of "sleep POLL_INTERVAL w" ?g ?w2 f']) auto
    with eq show ?thesis by simp
  qed
qed

lemma upload_to_gemini_after_upload:
  assumes "uploaded_file_obj work_input = Some f"
    and "determine_mime_type e f = Some m" and "m \<noteq> []"
    and "upload_response e = Inr f0"
  shows "upload_to_gemini e work_input w =
          (case poll_loop e (clock w) f0 (call (UploadFile (take 128 (get_display_title work_input)) m) w) of
             (Inl TimeoutError, w2) \<Rightarrow> (Inl UploadTimeout, w2)
           | (Inl OtherException, w2) \<Rightarrow> (Inl UploadFailed, log UploadError w2)
           | (Inr polled, w2) \<Rightarrow>
               if rf_state polled = ''FAILED'' then (Inl RemoteProcessingFailed, w2)
               else if rf_state polled = ''ACTIVE'' then (Inr polled, w2)
               else (Inl (UnexpectedState (rf_state polled)), w2))"
  using assms by (simp add: upload_to_gemini_def Let_def)

lemma upload_to_gemini_terminal_after:
  assumes "uploaded_file_obj work_input = Some f"
    and "truthy (determine_mime_type e f)"
    and "upload_response e = Inr f0"
    and "rf_state f0 = ''PROCESSING''"
    and "\<forall>i<n. \<exists>fi. get_response e (count_calls is_get w + i) = Inr fi \<and> rf_state fi = ''PROCESSING''"
    and "get_response e (count_calls is_get w + n) = Inr ft"
    and "rf_state ft \<noteq> ''PROCESSING''"
    and "(\<Sum>i<n. POLL_INTERVAL + int (get_duration e (count_calls is_get w + i))) \<le> TIMEOUT"
  shows "fst (upload_to_gemini e work_input w) =
           (if rf_state ft = ''FAILED'' then Inl RemoteProcessingFailed
            else if rf_state ft = ''ACTIVE'' then Inr ft
            else Inl (UnexpectedState (rf_state ft)))
         \<and> count_calls is_get (snd (upload_to_gemini e work_input w)) = count_calls is_get w + Suc n
         \<and> clock (snd (upload_to_gemini e work_input w)) =
             clock w + (\<Sum>i<Suc n. POLL_INTERVAL + int (get_duration e (count_calls is_get w + i)))"
proof -
  from assms(2) obtain m where m: "determine_mime_type e f = Some m" "m \<noteq> []"
    by (auto simp: truthy_def split: option.splits)
  let ?w1 = "call (UploadFile (take 128 (get_display_title work_input)) m) w"
  have g1: "count_calls is_get ?w1 = count_calls is_get w"
    by simp
  have "\<exists>w'. poll_loop e (clock w) f0 ?w1 = (Inr ft, w')
           \<and> count_calls is_get w' = count_calls is_get ?w1 + Suc n
           \<and> count_calls is_delete w' = count_calls is_delete ?w1
           \<and> count_calls is_upload w' = count_calls is_upload ?w1
           \<and> clock w' = clock ?w1 + (\<Sum>i<Suc n. POLL_INTERVAL + int (get_duration e (count_calls is_get ?w1 + i)))"
    using assms(4-8) by (intro poll_loop_leaves_processing) (simp_all only: g1 clock_call, simp_all)
  then obtain w' where w': "poll_loop e (clock w) f0 ?w1 = (Inr ft, w')"
      "count_calls is_get w' = count_calls is_get w + Suc n"
      "clock w' = clock w + (\<Sum>i<Suc n. POLL_INTERVAL + int (get_duration e (count_calls is_get w + i)))"
    by (auto simp only: g1 clock_call)
  show ?thesis
    using w' by (simp add: upload_to_gemini_after_upload [OF assms(1) m assms(3)] del: sum.lessThan_Suc)
qed

lemma upload_to_gemini_timeout_elapsed:
  assumes "uploaded_file_obj work_input = Some f"
    and "truthy (determine_mime_type e f)"
    and "upload_response e = Inr f0"
    and "fst (upload_to_gemini e work_input w) = Inl UploadTimeout"
    and "\<forall>k. get_response e k \<noteq> Inl TimeoutError"
  shows "clock (snd (upload_to_gemini e work_input w)) - clock w > TIMEOUT"
proof -
  from assms(2) obtain m where m: "determine_mime_type e f = Some m" "m \<noteq> []"
    by (auto simp: truthy_def split: option.splits)
  let ?w1 = "call (UploadFile (take 128 (get_display_title work_input)) m) w"
  let ?p = "poll_loop e (clock w) f0 ?w1"
  note up = upload_to_gemini_after_upload [OF assms(1) m assms(3), of w]
  from assms(4) have "fst ?p = Inl TimeoutError"
    by (auto simp: up split: prod.splits sum.splits exn.splits if_splits)
  then have "clock (snd ?p) - clock w > TIMEOUT" "upload_to_gemini e work_input w = (Inl UploadTimeout, snd ?p)"
    using poll_loop_timeout_elapsed [OF assms(5), of "clock w" f0 ?w1]
    by (auto simp: up split: prod.splits sum.splits exn.splits)
  then show ?thesis by simp
qed

lemma upload_to_gemini_never_leaves:
  assumes "uploaded_file_obj work_input = Some f"
    and "truthy (determine_mime_type e f)"
    and "upload_response e = Inr f0"
    and "rf_state f0 = ''PROCESSING''"
    and "\<forall>k. \<exists>fk. get_response e k = Inr fk \<and> rf_state fk = ''PROCESSING''"
  shows "fst (upload_to_gemini e work_input w) = Inl UploadTimeout"
proof -
  from assms(2) obtain m where m: "determine_mime_type e f = Some m" "m \<noteq> []"
    by (auto simp: truthy_def split: option.splits)
  let ?w1 = "call (UploadFile (take 128 (get_display_title work_input)) m) w"
  have "fst (poll_loop e (clock w) f0 ?w1) = Inl TimeoutError"
    using assms(5,4) by (rule poll_loop_never_leaves)
  then show ?thesis
    by (auto simp: upload_to_gemini_after_upload [OF assms(1) m assms(3)]
             split: prod.splits sum.splits exn.splits)
qed

lemma upload_to_gemini_terminal_at_once:
  assumes "uploaded_file_obj work_input = Some f"
    and "truthy (determine_mime_type e f)"
    and "upload_response e = Inr f0"
    and "rf_state f0 \<noteq> ''PROCESSING''"
  shows "fst (upload_to_gemini e work_input w) =
           (if rf_state f0 = ''FAILED'' then Inl RemoteProcessingFailed
            else if rf_state f0 = ''ACTIVE'' then Inr f0
            else Inl (UnexpectedState (rf_state f0)))
         \<and> count_calls is_get (snd (upload_to_gemini e work_input w)) = count_calls is_get w"
proof -
  from assms(2) obtain m where m: "determine_mime_type e f = Some m" "m \<noteq> []"
    by (auto simp: truthy_def split: option.splits)
  show ?thesis
    using assms(4)
    by (simp add: upload_to_gemini_after_upload [OF assms(1) m assms(3)] poll_loop_terminal)
qed


text \<open>
  The case left out above: a poll that raises \<open>TimeoutError\<close> is reported as the timeout
  at once, here after the first sleep of 3 seconds.
\<close>

lemma upload_to_gemini_get_file_times_out:
  assumes "uploaded_file_obj work_input = Some f"
    and "truthy (determine_mime_type e f)"
    and "upload_response e = Inr f0"
    and "rf_state f0 = ''PROCESSING''"
    and "get_response e (count_calls is_get w) = Inl TimeoutError"
  shows "fst (upload_to_gemini e work_input w) = Inl UploadTimeout
       \<and> clock (snd (upload_to_gemini e work_input w))
           = clock w + POLL_INTERVAL + int (get_duration e (count_calls is_get w))
       \<and> logged (snd (upload_to_gemini e work_input w)) = logged w"
proof -
  from assms(2) obtain m where m: "determine_mime_type e f = Some m" "m \<noteq> []"
    by (auto simp: truthy_def split: option.splits)
  let ?w1 = "call (UploadFile (take 128 (get_display_title work_input)) m) w"
  have "poll_loop e (clock w) f0 ?w1 =
      (Inl TimeoutError, sleep (int (get_duration e (count_calls is_get ?w1)))
                           (call (GetFile (rf_name f0)) (sleep POLL_INTERVAL ?w1)))"
    using assms(4,5) by (intro poll_loop_get_file_times_out) (simp_all add: TIMEOUT_def)
  then show ?thesis
    by (simp add: upload_to_gemini_after_upload [OF assms(1) m assms(3)])
qed

lemma rf_state_handle [simp]: "rf_state (handle st) = st"
  by (simp add: handle_def)

lemma rf_name_handle [simp]: "rf_name (handle st) = ''files/w1''"
  by (simp add: handle_def)

lemma world0_simps [simp]:
  "calls world0 = []" "clock world0 = 0" "logged world0 = []" "count_calls kind world0 = 0"
  by (simp_all add: world0_def count_calls_def)

lemma silent_service_simps [simp]:
  "guess_type silent_service file_name = None"
  "upload_response silent_service = Inr (handle ''PROCESSING'')"
  "get_response silent_service k = Inr (handle ''PROCESSING'')"
  "get_duration silent_service k = 0"
  "delete_raises silent_service = False"
  "generate_response silent_service k cs = None"
  by (simp_all add: silent_service_def)

lemma active_after_two_polls_simps [simp]:
  "guess_type active_after_two_polls file_name = None"
  "upload_response active_after_two_polls = Inr (handle ''PROCESSING'')"
  "get_response active_after_two_polls k = Inr (handle (if k = 0 then ''PROCESSING'' else ''ACTIVE''))"
  "get_duration active_after_two_polls k = 0"
  "delete_raises active_after_two_polls = False"
  "generate_response active_after_two_polls k cs = None"
  by (simp_all add: active_after_two_polls_def)

lemma failed_at_first_poll_simps [simp]:
  "guess_type failed_at_first_poll file_name = None"
  "upload_response failed_at_first_poll = Inr (handle ''PROCESSING'')"
  "get_response failed_at_first_poll k = Inr (handle ''FAILED'')"
  "get_duration failed_at_first_poll k = 0"
  "delete_raises failed_at_first_poll = False"
  "generate_response failed_at_first_poll k cs = None"
  by (simp_all add: failed_at_first_poll_def)

lemma active_at_once_simps [simp]:
  "guess_type active_at_once file_name = None"
  "upload_response active_at_once = Inr (handle ''ACTIVE'')"
  "get_response active_at_once k = Inr (handle ''PROCESSING'')"
  "get_duration active_at_once k = 0"
  "delete_raises active_at_once = False"
  "generate_response active_at_once k cs = None"
  by (simp_all add: active_at_once_def)

lemma answering_service_simps [simp]:
  "guess_type answering_service file_name = None"
  "upload_response answering_service = Inr (handle ''ACTIVE'')"
  "get_response answering_service k = Inr (handle ''PROCESSING'')"
  "get_duration answering_service k = 0"
  "delete_raises answering_service = False"
  "generate_response answering_service k cs = Some ''An analysis.''"
  by (simp_all add: answering_service_def)

lemma fails_from_third_call_simps [simp]:
  "guess_type fails_from_third_call file_name = None"
  "upload_response fails_from_third_call = Inr (handle ''PROCESSING'')"
  "get_response fails_from_third_call k = Inr (handle ''PROCESSING'')"
  "get_duration fails_from_third_call k = 0"
  "delete_raises fails_from_third_call = False"
  "generate_response fails_from_third_call k cs = (if k < 2 then Some ''An analysis.'' else None)"
  by (simp_all add: fails_from_third_call_def)

lemma audio_work_simps [simp]:
  "uploaded_file_obj audio_work = Some \<lparr>uf_type = Some ''audio/mpeg'', uf_name = ''nocturne.mp3''\<rparr>"
  "modality audio_work = M_AUDIO" "title audio_work = ''Nocturne''"
  by (simp_all add: audio_work_def)

lemma untyped_work_simps [simp]:
  "uploaded_file_obj untyped_work = Some \<lparr>uf_type = Some ''application/octet-stream'', uf_name = ''scan''\<rparr>"
  "modality untyped_work = M_IMAGE" "title untyped_work = []"
  by (simp_all add: untyped_work_def)

lemma text_work_simps [simp]:
  "uploaded_file_obj text_work = None" "modality text_work = M_TEXT" "title text_work = []"
  "data text_work = Some ''The sun set over the ruins.''"
  by (simp_all add: text_work_def)

lemma audio_work_mime:
  "truthy (determine_mime_type e \<lparr>uf_type = Some ''audio/mpeg'', uf_name = ''nocturne.mp3''\<rparr>)"
  by (simp add: determine_mime_type_def truthy_def)


lemma get_file_timeout_reported_at_once:
  "upload_to_gemini (silent_service\<lparr>get_response := (\<lambda>k. Inl TimeoutError)\<rparr>) audio_work world0 =
     (Inl UploadTimeout,
      \<lparr>calls = [UploadFile ''Nocturne'' ''audio/mpeg'', GetFile ''files/w1''], clock = 3, logged = []\<rparr>)"
proof -
  let ?e = "silent_service\<lparr>get_response := (\<lambda>k. Inl TimeoutError)\<rparr>"
  let ?w1 = "call (UploadFile ''Nocturne'' ''audio/mpeg'') world0"
  have "poll_loop ?e 0 (handle ''PROCESSING'') ?w1 =
      (Inl TimeoutError, sleep (int (get_duration ?e (count_calls is_get ?w1)))
                           (call (GetFile (rf_name (handle ''PROCESSING''))) (sleep POLL_INTERVAL ?w1)))"
    by (rule poll_loop_get_file_times_out) (simp_all add: TIMEOUT_def)
  then show ?thesis
    by (simp add: upload_to_gemini_def determine_mime_type_def truthy_def get_display_title_def
          Let_def call_def sleep_def world0_def POLL_INTERVAL_def)
qed

lemma poll_loop_calls_prefix: "prefix (calls w) (calls (snd (poll_loop e s f w)))"
proof (induction e s f w rule: poll_loop.induct)
  case (1 e s f w)
  show ?case
  proof (cases "rf_state f = ''PROCESSING'' \<and> clock w - s \<le> TIMEOUT")
    case False
    then show ?thesis
      by (subst poll_loop.simps) auto
  next
    case True
    let ?g = "count_calls is_get (sleep POLL_INTERVAL w)"
    let ?w2 = "sleep (int (get_duration e ?g)) (call (GetFile (rf_name f)) (sleep POLL_INTERVAL w))"
    show ?thesis
    proof (cases "get_response e ?g")
      case (Inl raised)
      with True show ?thesis
        by (subst poll_loop.simps) (simp add: Let_def)
    next
      case (Inr f')
      with True have eq: "poll_loop e s f w = poll_loop e s f' ?w2"
        by (subst poll_loop.simps) (simp add: Let_def)
      from True Inr have "prefix (calls ?w2) (calls (snd (poll_loop e s f' ?w2)))"
        by (intro "1.IH" [of "sleep POLL_INTERVAL w" ?g ?w2 f']) auto
      then have "prefix (calls w) (calls (snd (poll_loop e s f' ?w2)))"
        by (auto dest: append_prefixD)
      with eq show ?thesis by simp
    qed
  qed
qed

lemma upload_to_gemini_first_call:
  assumes "uploaded_file_obj work_input = Some f"
    and "determine_mime_type e f = Some m" and "m \<noteq> []"
  shows "prefix (calls w @ [UploadFile (take 128 (get_display_title work_input)) m])
           (calls (snd (upload_to_gemini e work_input w)))"
proof (cases "upload_response e")
  case (Inl raised)
  with assms show ?thesis
    by (cases raised) (simp_all add: upload_to_gemini_def Let_def)
next
  case (Inr f0)
  let ?w1 = "call (UploadFile (take 128 (get_display_title work_input)) m) w"
  have "prefix (calls ?w1) (calls (snd (poll_loop e (clock w) f0 ?w1)))"
    by (rule poll_loop_calls_prefix)
  then show ?thesis
    by (auto simp: upload_to_gemini_after_upload [OF assms Inr]
             split: prod.splits sum.splits exn.splits)
qed

lemma upload_to_gemini_MimeTypeUnknown:
  assumes "uploaded_file_obj work_input = Some f"
  shows "fst (upload_to_gemini e work_input w) = Inl MimeTypeUnknown \<longleftrightarrow> \<not> truthy (determine_mime_type e f)"
proof (cases "truthy (determine_mime_type e f)")
  case False
  with assms show ?thesis
    by (auto simp: upload_to_gemini_def truthy_def split: option.splits)
next
  case True
  then obtain m where m: "determine_mime_type e f = Some m" "m \<noteq> []"
    by (auto simp: truthy_def split: option.splits)
  show ?thesis
  proof (cases "upload_response e")
    case (Inl raised)
    with assms m True show ?thesis
      by (cases raised) (simp_all add: upload_to_gemini_def Let_def)
  next
    case (Inr f0)
    with True show ?thesis
      by (auto simp: upload_to_gemini_after_upload [OF assms m Inr]
               split: prod.splits sum.splits exn.splits)
  qed
qed

text \<open>
  Claim C4, as stated, fails in its last part: with a declared type
  \<open>application/octet-stream\<close> and a file name for which no type is guessed, the upload is
  not refused; the file is submitted under the generic type.
\<close>

theorem upload_to_gemini_generic_type_counterexample:
  "uploaded_file_obj untyped_work = Some \<lparr>uf_type = Some ''application/octet-stream'', uf_name = ''scan''\<rparr>
   \<and> guess_type active_at_once ''scan'' = None
   \<and> upload_to_gemini active_at_once untyped_work world0 =
       (Inr (handle ''ACTIVE''),
        world0\<lparr>calls := [UploadFile ''(Untitled)'' ''application/octet-stream'']\<rparr>)"
  by (simp add: upload_to_gemini_def determine_mime_type_def truthy_def get_display_title_def
        poll_loop_terminal call_def)

text \<open>
  Claim C4, amended. The declared type is used when it is present and not generic. When
  it is absent, empty or \<open>application/octet-stream\<close>, the type guessed from the file name
  is used if there is one, and the declared type is kept otherwise. The upload fails with
  the MIME-type-unknown error, before any remote call, exactly when the declared type is
  absent or empty and no type is guessed; in every other case the file is submitted under
  the resolved type, which is the generic type when that was declared and nothing was
  guessed.
\<close>

theorem upload_to_gemini_mime_type:
  assumes "uploaded_file_obj work_input = Some f"
  shows "(truthy (uf_type f) \<and> uf_type f \<noteq> Some ''application/octet-stream''
            \<longrightarrow> determine_mime_type e f = uf_type f)
       \<and> ((\<not> truthy (uf_type f) \<or> uf_type f = Some ''application/octet-stream'')
            \<and> truthy (guess_type e (uf_name f))
            \<longrightarrow> determine_mime_type e f = guess_type e (uf_name f))
       \<and> ((\<not> truthy (uf_type f) \<or> uf_type f = Some ''application/octet-stream'')
            \<and> \<not> truthy (guess_type e (uf_name f))
            \<longrightarrow> determine_mime_type e f = uf_type f)
       \<and> (fst (upload_to_gemini e work_input w) = Inl MimeTypeUnknown
            \<longleftrightarrow> \<not> truthy (uf_type f) \<and> \<not> truthy (guess_type e (uf_name f)))
       \<and> (\<not> truthy (uf_type f) \<and> \<not> truthy (guess_type e (uf_name f))
            \<longrightarrow> upload_to_gemini e work_input w = (Inl MimeTypeUnknown, w))
       \<and> (\<forall>m. determine_mime_type e f = Some m \<and> m \<noteq> []
            \<longrightarrow> prefix (calls w @ [UploadFile (take 128 (get_display_title work_input)) m])
                  (calls (snd (upload_to_gemini e work_input w))))"
proof -
  have declared: "truthy (uf_type f) \<and> uf_type f \<noteq> Some ''application/octet-stream''
      \<longrightarrow> determine_mime_type e f = uf_type f"
    by (simp add: determine_mime_type_def)
  have guessed: "(\<not> truthy (uf_type f) \<or> uf_type f = Some ''application/octet-stream'')
      \<and> truthy (guess_type e (uf_name f))
      \<longrightarrow> determine_mime_type e f = guess_type e (uf_name f)"
    by (auto simp: determine_mime_type_def Let_def)
  have kept: "(\<not> truthy (uf_type f) \<or> uf_type f = Some ''application/octet-stream'')
      \<and> \<not> truthy (guess_type e (uf_name f))
      \<longrightarrow> determine_mime_type e f = uf_type f"
    by (auto simp: determine_mime_type_def Let_def)
  have "truthy (determine_mime_type e f) \<longleftrightarrow> truthy (uf_type f) \<or> truthy (guess_type e (uf_name f))"
    by (auto simp: determine_mime_type_def Let_def truthy_def)
  then have unknown: "fst (upload_to_gemini e work_input w) = Inl MimeTypeUnknown
      \<longleftrightarrow> \<not> truthy (uf_type f) \<and> \<not> truthy (guess_type e (uf_name f))"
    by (simp add: upload_to_gemini_MimeTypeUnknown [OF assms])
  have untouched: "\<not> truthy (uf_type f) \<and> \<not> truthy (guess_type e (uf_name f))
      \<longrightarrow> upload_to_gemini e work_input w = (Inl MimeTypeUnknown, w)"
    using assms
    by (auto simp: upload_to_gemini_def determine_mime_type_def Let_def truthy_def split: option.splits)
  have submitted: "\<forall>m. determine_mime_type e f = Some m \<and> m \<noteq> []
      \<longrightarrow> prefix (calls w @ [UploadFile (take 128 (get_display_title work_input)) m])
            (calls (snd (upload_to_gemini e work_input w)))"
    using upload_to_gemini_first_call [OF assms] by blast
  from declared guessed kept unknown untouched submitted show ?thesis
    by (intro conjI)
qed

theorem upload_to_gemini_mime_type_witness:
  "determine_mime_type silent_service \<lparr>uf_type = Some ''audio/mpeg'', uf_name = ''nocturne.mp3''\<rparr>
     = Some ''audio/mpeg''
   \<and> determine_mime_type silent_service
       \<lparr>uf_type = Some ''application/octet-stream'', uf_name = ''scan''\<rparr>
     = Some ''application/octet-stream''
   \<and> fst (upload_to_gemini silent_service untyped_work world0) \<noteq> Inl MimeTypeUnknown
   \<and> upload_to_gemini silent_service
       (untyped_work\<lparr>uploaded_file_obj := Some \<lparr>uf_type = None, uf_name = ''scan''\<rparr>\<rparr>) world0
     = (Inl MimeTypeUnknown, world0)"
proof -
  note generic = upload_to_gemini_mime_type [OF untyped_work_simps(1), of silent_service world0]
  note declared = upload_to_gemini_mime_type [OF audio_work_simps(1), of silent_service world0]
  have obj: "uploaded_file_obj (untyped_work\<lparr>uploaded_file_obj := Some \<lparr>uf_type = None, uf_name = ''scan''\<rparr>\<rparr>)
      = Some \<lparr>uf_type = None, uf_name = ''scan''\<rparr>"
    by simp
  note absent = upload_to_gemini_mime_type [OF obj, of silent_service world0]
  have a: "determine_mime_type silent_service \<lparr>uf_type = Some ''audio/mpeg'', uf_name = ''nocturne.mp3''\<rparr>
      = Some ''audio/mpeg''"
    using declared [THEN conjunct1] by (simp add: truthy_def)
  have b: "determine_mime_type silent_service
       \<lparr>uf_type = Some ''application/octet-stream'', uf_name = ''scan''\<rparr>
     = Some ''application/octet-stream''"
    using generic [THEN conjunct2, THEN conjunct2, THEN conjunct1] by (simp add: truthy_def)
  have c: "fst (upload_to_gemini silent_service untyped_work world0) \<noteq> Inl MimeTypeUnknown"
    using generic [THEN conjunct2, THEN conjunct2, THEN conjunct2, THEN conjunct1]
    by (simp add: truthy_def)
  have d: "upload_to_gemini silent_service
       (untyped_work\<lparr>uploaded_file_obj := Some \<lparr>uf_type = None, uf_name = ''scan''\<rparr>\<rparr>) world0
     = (Inl MimeTypeUnknown, world0)"
    using absent [THEN conjunct2, THEN conjunct2, THEN conjunct2, THEN conjunct2, THEN conjunct1]
    by (simp add: truthy_def)
  from a b c d show ?thesis
    by blast
qed

text \<open>
  With polls that take no time, the store that never leaves \<open>PROCESSING\<close> is polled 101
  times, and the timeout is raised at second 303.
\<close>

lemma timeout_polls:
  "count_calls is_get (snd (upload_to_gemini silent_service audio_work world0)) = 101
   \<and> clock (snd (upload_to_gemini silent_service audio_work world0)) = 303"
  by code_simp

section \<open>Properties of the analysis generator\<close>

lemma cleanup_None [simp]: "cleanup e None w = w"
  by (simp add: cleanup_def)

lemma calls_cleanup_Some [simp]:
  "calls (cleanup e (Some f) w) = calls w @ [DeleteFile (rf_name f)]"
  by (simp add: cleanup_def Let_def)

lemma general_soldier_calls:
  "\<exists>general. (generate_response e (count_calls is_generate w) general = None
        \<and> general_soldier e lens_keyword work_input gemini_file w
            = (None, log AnalysisError (call (GenerateContent general) w)))
     \<or> (\<exists>answer soldier. generate_response e (count_calls is_generate w) general = Some answer
        \<and> fst (general_soldier e lens_keyword work_input gemini_file w)
            = generate_response e (Suc (count_calls is_generate w)) soldier
        \<and> calls (snd (general_soldier e lens_keyword work_input gemini_file w))
            = calls w @ [GenerateContent general, GenerateContent soldier])"
  unfolding general_soldier_def Let_def
  by (auto split: option.splits)

lemma generate_analysis_text:
  "modality work_input = M_TEXT \<Longrightarrow>
   generate_analysis e lens_keyword work_input w = general_soldier e lens_keyword work_input None w"
  by (simp add: generate_analysis_def split: prod.splits)

lemma cleanup_V5_None [simp]: "cleanup_V5 None w = w"
  by (simp add: cleanup_V5_def)

lemma generate_once_calls:
  "calls (snd (generate_once e content_input w)) = calls w @ [GenerateContent content_input]"
  by (simp add: generate_once_def Let_def)

lemma generate_analysis_V5_text:
  assumes "modality work_input = M_TEXT" and "FLATTENED_LENSES prompt_key = Some base_prompt"
  shows "\<exists>content. calls (snd (generate_analysis_V5 e FLATTENED_LENSES prompt_key work_input w))
           = calls w @ [GenerateContent content]"
proof -
  let ?final = "base_prompt @ nl @ nl @ ''The work is as follows:'' @ nl
      @ ''---'' @ nl @ ''Title: '' @ get_display_title work_input @ nl @ nl
      @ ''Work:'' @ nl @ str_of_data (data work_input)"
  have "generate_analysis_V5 e FLATTENED_LENSES prompt_key work_input w
      = (Inr (fst (generate_once e [Text ?final] w)), snd (generate_once e [Text ?final] w))"
    using assms by (simp add: generate_analysis_V5_def Let_def split: prod.splits)
  then have "calls (snd (generate_analysis_V5 e FLATTENED_LENSES prompt_key work_input w))
      = calls w @ [GenerateContent [Text ?final]]"
    by (simp add: generate_once_calls)
  then show ?thesis
    by (rule exI)
qed

lemma generate_analysis_V5_KeyError:
  "FLATTENED_LENSES prompt_key = None \<Longrightarrow>
   generate_analysis_V5 e FLATTENED_LENSES prompt_key work_input w = (Inl KeyError, w)"
  by (simp add: generate_analysis_V5_def)

lemma count_calls_append:
  "calls w' = calls w @ cs \<Longrightarrow> count_calls kind w' = count_calls kind w + length (filter kind cs)"
  by (simp add: count_calls_def)

text \<open>
  A two-tier analysis of a text work that returns text has made two calls: the
  strategy-design call on the meta-prompt and the work, then the execution call on the
  strategy returned, stripped, with the work appended.
\<close>

lemma general_soldier_returns_text:
  assumes "modality work_input = M_TEXT"
    and "fst (general_soldier e lens_keyword work_input None w) = Some text"
  shows "\<exists>work_context answer block.
           generate_response e (count_calls is_generate w)
             [Text (meta_prompt e lens_keyword M_TEXT), Text work_context] = Some answer
         \<and> generate_response e (Suc (count_calls is_generate w))
             [Text (strip answer @ block)] = Some text
         \<and> calls (snd (general_soldier e lens_keyword work_input None w)) =
             calls w @ [GenerateContent [Text (meta_prompt e lens_keyword M_TEXT), Text work_context],
                        GenerateContent [Text (strip answer @ block)]]"
proof -
  let ?work_context = "nl @ ''--- The Creative Work (For Context) ---'' @ nl @ ''Title: ''
      @ get_display_title work_input @ nl @ nl @ ''Work:'' @ nl @ str_of_data (data work_input)"
  let ?block = "nl @ nl @ ''--- The Creative Work (To Be Analyzed) ---'' @ nl @ ''Title: ''
      @ get_display_title work_input @ nl @ nl @ ''Work:'' @ nl @ str_of_data (data work_input)"
  let ?general = "[Text (meta_prompt e lens_keyword M_TEXT), Text ?work_context]"
  obtain answer where answer: "generate_response e (count_calls is_generate w) ?general = Some answer"
    using assms by (cases "generate_response e (count_calls is_generate w) ?general")
      (simp_all add: general_soldier_def Let_def)
  let ?soldier = "[Text (strip answer @ ?block)]"
  have run: "general_soldier e lens_keyword work_input None w =
      (case generate_response e (Suc (count_calls is_generate w)) ?soldier of
         None \<Rightarrow> (None, log AnalysisError
                     (call (GenerateContent ?soldier) (call (GenerateContent ?general) w)))
       | Some response_soldier \<Rightarrow>
           (Some response_soldier, call (GenerateContent ?soldier) (call (GenerateContent ?general) w)))"
    using assms(1) answer by (simp add: general_soldier_def Let_def split: option.splits)
  with assms(2) have soldier: "generate_response e (Suc (count_calls is_generate w)) ?soldier = Some text"
    by (cases "generate_response e (Suc (count_calls is_generate w)) ?soldier") simp_all
  with run have "calls (snd (general_soldier e lens_keyword work_input None w)) =
      calls w @ [GenerateContent ?general, GenerateContent ?soldier]"
    by simp
  with answer soldier show ?thesis
    by blast
qed

lemma general_soldier_text_calls:
  assumes "modality work_input = M_TEXT"
  shows "\<exists>cs. calls (snd (general_soldier e lens_keyword work_input None w)) = calls w @ cs
           \<and> (\<forall>c \<in> set cs. is_generate c)"
  using general_soldier_calls [of e w lens_keyword work_input None]
  by (elim exE disjE conjE) auto

text \<open>
  Claim C8. For a work of text modality, an analysis in two-tier mode that returns text
  has issued exactly two generation calls, the strategy-design call and then the
  execution call on the strategy returned; an analysis in direct mode (the V5 engine)
  that returns text has issued exactly one. In neither mode is any upload or delete call
  made, whether the analysis returns text or fails.
\<close>

theorem generate_analysis_text_calls:
  assumes "modality work_input = M_TEXT"
  shows "(\<forall>text. fst (generate_analysis e lens_keyword work_input w) = Some text
            \<longrightarrow> count_calls is_generate (snd (generate_analysis e lens_keyword work_input w))
                  = count_calls is_generate w + 2
              \<and> (\<exists>work_context answer block.
                    generate_response e (count_calls is_generate w)
                      [Text (meta_prompt e lens_keyword M_TEXT), Text work_context] = Some answer
                  \<and> calls (snd (generate_analysis e lens_keyword work_input w)) =
                      calls w @ [GenerateContent [Text (meta_prompt e lens_keyword M_TEXT), Text work_context],
                                 GenerateContent [Text (strip answer @ block)]]))
       \<and> (\<forall>text. fst (generate_analysis_V5 e FLATTENED_LENSES prompt_key work_input w) = Inr (Some text)
            \<longrightarrow> count_calls is_generate
                    (snd (generate_analysis_V5 e FLATTENED_LENSES prompt_key work_input w))
                  = count_calls is_generate w + 1
              \<and> (\<exists>content. calls (snd (generate_analysis_V5 e FLATTENED_LENSES prompt_key work_input w))
                    = calls w @ [GenerateContent content]))
       \<and> count_calls is_upload (snd (generate_analysis e lens_keyword work_input w))
           = count_calls is_upload w
       \<and> count_calls is_delete (snd (generate_analysis e lens_keyword work_input w))
           = count_calls is_delete w
       \<and> count_calls is_upload (snd (generate_analysis_V5 e FLATTENED_LENSES prompt_key work_input w))
           = count_calls is_upload w
       \<and> count_calls is_delete (snd (generate_analysis_V5 e FLATTENED_LENSES prompt_key work_input w))
           = count_calls is_delete w"
proof -
  let ?r = "generate_analysis e lens_keyword work_input w"
  let ?v = "generate_analysis_V5 e FLATTENED_LENSES prompt_key work_input w"
  let ?k = "count_calls is_generate w"
  have eq: "?r = general_soldier e lens_keyword work_input None w"
    using assms by (rule generate_analysis_text)
  have two: "\<forall>text. fst ?r = Some text
      \<longrightarrow> count_calls is_generate (snd ?r) = ?k + 2
        \<and> (\<exists>work_context answer block.
              generate_response e ?k [Text (meta_prompt e lens_keyword M_TEXT), Text work_context] = Some answer
            \<and> calls (snd ?r) =
                calls w @ [GenerateContent [Text (meta_prompt e lens_keyword M_TEXT), Text work_context],
                           GenerateContent [Text (strip answer @ block)]])"
  proof (intro allI impI)
    fix returned
    assume "fst ?r = Some returned"
    then have "fst (general_soldier e lens_keyword work_input None w) = Some returned"
      by (simp add: eq)
    from general_soldier_returns_text [OF assms this]
    obtain ctx answer blk where c:
      "generate_response e ?k [Text (meta_prompt e lens_keyword M_TEXT), Text ctx] = Some answer"
      "calls (snd ?r) =
         calls w @ [GenerateContent [Text (meta_prompt e lens_keyword M_TEXT), Text ctx],
                    GenerateContent [Text (strip answer @ blk)]]"
      unfolding eq by blast
    have "count_calls is_generate (snd ?r) = ?k + 2"
      using count_calls_append [OF c(2), of is_generate] by simp
    with c show "count_calls is_generate (snd ?r) = ?k + 2
        \<and> (\<exists>work_context answer block.
              generate_response e ?k [Text (meta_prompt e lens_keyword M_TEXT), Text work_context] = Some answer
            \<and> calls (snd ?r) =
                calls w @ [GenerateContent [Text (meta_prompt e lens_keyword M_TEXT), Text work_context],
                           GenerateContent [Text (strip answer @ block)]])"
      by blast
  qed
  from general_soldier_text_calls [OF assms, of e lens_keyword w]
  obtain cs where cs: "calls (snd ?r) = calls w @ cs" "\<forall>c \<in> set cs. is_generate c"
    unfolding eq by blast
  have kinds: "filter is_upload cs = []" "filter is_delete cs = []"
    using cs(2) by (auto simp: filter_empty_conv is_upload_def is_delete_def is_generate_def
                        split: api_call.splits)
  have up: "count_calls is_upload (snd ?r) = count_calls is_upload w"
    using count_calls_append [OF cs(1), of is_upload] kinds by simp
  have del: "count_calls is_delete (snd ?r) = count_calls is_delete w"
    using count_calls_append [OF cs(1), of is_delete] kinds by simp
  have shape5: "?v = (Inl KeyError, w)
      \<or> (\<exists>content. calls (snd ?v) = calls w @ [GenerateContent content])"
  proof (cases "FLATTENED_LENSES prompt_key")
    case None
    then show ?thesis
      by (simp add: generate_analysis_V5_KeyError)
  next
    case (Some base_prompt)
    with generate_analysis_V5_text [of work_input FLATTENED_LENSES prompt_key base_prompt e w] assms
    show ?thesis
      by blast
  qed
  have one: "\<forall>text. fst ?v = Inr (Some text)
      \<longrightarrow> count_calls is_generate (snd ?v) = ?k + 1
        \<and> (\<exists>content. calls (snd ?v) = calls w @ [GenerateContent content])"
  proof (intro allI impI)
    fix returned
    assume "fst ?v = Inr (Some returned)"
    with shape5 obtain content where c: "calls (snd ?v) = calls w @ [GenerateContent content]"
      by auto
    then show "count_calls is_generate (snd ?v) = ?k + 1
        \<and> (\<exists>content. calls (snd ?v) = calls w @ [GenerateContent content])"
      using count_calls_append [OF c, of is_generate] by auto
  qed
  have up5: "count_calls is_upload (snd ?v) = count_calls is_upload w"
    using shape5 count_calls_append [of "snd ?v" w _ is_upload] by auto
  have del5: "count_calls is_delete (snd ?v) = count_calls is_delete w"
    using shape5 count_calls_append [of "snd ?v" w _ is_delete] by auto
  from two one up del up5 del5 show ?thesis
    by (intro conjI)
qed

lemma answering_service_text_analysis:
  "fst (generate_analysis answering_service ''Existentialist'' text_work world0) = Some ''An analysis.''"
  by (simp add: generate_analysis_text general_soldier_def Let_def)

lemma answering_service_text_analysis_V5:
  "fst (generate_analysis_V5 answering_service
          [''Philosophical (Existentialist)'' \<mapsto> ''Analyze through an Existentialist lens.'']
          ''Philosophical (Existentialist)'' text_work world0) = Inr (Some ''An analysis.'')"
  by (simp add: generate_analysis_V5_def generate_once_def Let_def)

theorem generate_analysis_text_calls_witness:
  "modality text_work = M_TEXT
   \<and> fst (generate_analysis answering_service ''Existentialist'' text_work world0) = Some ''An analysis.''
   \<and> count_calls is_generate (snd (generate_analysis answering_service ''Existentialist'' text_work world0)) = 2
   \<and> count_calls is_upload (snd (generate_analysis answering_service ''Existentialist'' text_work world0)) = 0
   \<and> count_calls is_delete (snd (generate_analysis answering_service ''Existentialist'' text_work world0)) = 0
   \<and> fst (generate_analysis_V5 answering_service
            [''Philosophical (Existentialist)'' \<mapsto> ''Analyze through an Existentialist lens.'']
            ''Philosophical (Existentialist)'' text_work world0) = Inr (Some ''An analysis.'')
   \<and> count_calls is_generate
        (snd (generate_analysis_V5 answering_service
                [''Philosophical (Existentialist)'' \<mapsto> ''Analyze through an Existentialist lens.'']
                ''Philosophical (Existentialist)'' text_work world0)) = 1"
proof -
  note t = generate_analysis_text_calls [OF text_work_simps(2), of answering_service
      "''Existentialist''" world0
      "[''Philosophical (Existentialist)'' \<mapsto> ''Analyze through an Existentialist lens.'']"
      "''Philosophical (Existentialist)''"]
  from t answering_service_text_analysis answering_service_text_analysis_V5 show ?thesis
    by simp
qed

lemma poll_loop_counts:
  "\<forall>n. \<not> kind (GetFile n) \<Longrightarrow> count_calls kind (snd (poll_loop e s f w)) = count_calls kind w"
proof (induction e s f w rule: poll_loop.induct)
  case (1 e s f w)
  show ?case
  proof (cases "rf_state f = ''PROCESSING'' \<and> clock w - s \<le> TIMEOUT")
    case False
    then show ?thesis
      by (subst poll_loop.simps) auto
  next
    case True
    let ?g = "count_calls is_get (sleep POLL_INTERVAL w)"
    let ?w2 = "sleep (int (get_duration e ?g)) (call (GetFile (rf_name f)) (sleep POLL_INTERVAL w))"
    have w2: "count_calls kind ?w2 = count_calls kind w"
      using "1.prems" by simp
    show ?thesis
    proof (cases "get_response e ?g")
      case (Inl raised)
      with True w2 show ?thesis
        by (subst poll_loop.simps) (simp add: Let_def)
    next
      case (Inr f')
      with True have eq: "poll_loop e s f w = poll_loop e s f' ?w2"
        by (subst poll_loop.simps) (simp add: Let_def)
      from True Inr "1.prems" have "count_calls kind (snd (poll_loop e s f' ?w2)) = count_calls kind ?w2"
        by (intro "1.IH" [of "sleep POLL_INTERVAL w" ?g ?w2 f']) auto
      with eq w2 show ?thesis by simp
    qed
  qed
qed

lemma upload_to_gemini_no_delete:
  "count_calls is_delete (snd (upload_to_gemini e work_input w)) = count_calls is_delete w"
proof -
  have poll: "count_calls is_delete w'' = count_calls is_delete w'"
    if "poll_loop e s f w' = (r, w'')" for s f w' r w''
    using poll_loop_counts [of is_delete e s f w'] that by simp
  show ?thesis
    by (auto simp: upload_to_gemini_def Let_def dest!: poll
             split: option.splits prod.splits sum.splits exn.splits)
qed

lemma general_soldier_no_delete:
  "count_calls is_delete (snd (general_soldier e lens_keyword work_input gemini_file w))
     = count_calls is_delete w"
  by (simp add: general_soldier_def Let_def split: option.splits)

text \<open>
  Where the upload returns a handle, the \<open>finally\<close> block deletes it: exactly once, as the
  last call of the attempt.
\<close>

lemma generate_analysis_deletes_handle:
  assumes "modality work_input \<noteq> M_TEXT"
    and "fst (upload_to_gemini e work_input w) = Inr gemini_file"
  shows "count_calls is_delete (snd (generate_analysis e lens_keyword work_input w))
           = count_calls is_delete w + 1
         \<and> last (calls (snd (generate_analysis e lens_keyword work_input w)))
           = DeleteFile (rf_name gemini_file)"
proof -
  obtain w1 where w1: "upload_to_gemini e work_input w = (Inr gemini_file, w1)"
    using assms(2) by (cases "upload_to_gemini e work_input w") auto
  obtain r w2 where w2: "general_soldier e lens_keyword work_input (Some gemini_file) w1 = (r, w2)"
    by (cases "general_soldier e lens_keyword work_input (Some gemini_file) w1") auto
  have m: "modality work_input = M_IMAGE \<or> modality work_input = M_AUDIO"
    using assms(1) by (cases "modality work_input") auto
  have res: "generate_analysis e lens_keyword work_input w = (r, cleanup e (Some gemini_file) w2)"
    using m w1 w2 by (auto simp: generate_analysis_def)
  have "count_calls is_delete w1 = count_calls is_delete w"
    using upload_to_gemini_no_delete [of e work_input w] w1 by simp
  moreover have "count_calls is_delete w2 = count_calls is_delete w1"
    using general_soldier_no_delete [of e lens_keyword work_input "Some gemini_file" w1] w2 by simp
  ultimately show ?thesis
    by (simp add: res count_calls_def)
qed

text \<open>
  Where the upload gives no handle, nothing is deleted, whatever the upload did before
  it failed.
\<close>

lemma generate_analysis_upload_error:
  assumes "modality work_input \<noteq> M_TEXT"
    and "fst (upload_to_gemini e work_input w) = Inl err"
  shows "generate_analysis e lens_keyword work_input w = (None, snd (upload_to_gemini e work_input w))"
proof -
  have m: "modality work_input = M_IMAGE \<or> modality work_input = M_AUDIO"
    using assms(1) by (cases "modality work_input") auto
  with assms(2) show ?thesis
    by (cases "upload_to_gemini e work_input w") (auto simp: generate_analysis_def)
qed

lemma upload_failed_at_first_poll:
  "upload_to_gemini failed_at_first_poll audio_work world0 =
     (Inl RemoteProcessingFailed,
      \<lparr>calls = [UploadFile ''Nocturne'' ''audio/mpeg'', GetFile ''files/w1''], clock = 3, logged = []\<rparr>)"
proof -
  let ?w1 = "call (UploadFile ''Nocturne'' ''audio/mpeg'') world0"
  have "poll_loop failed_at_first_poll 0 (handle ''PROCESSING'') ?w1 =
      (Inr (handle ''FAILED''),
       sleep (int (get_duration failed_at_first_poll (count_calls is_get ?w1)))
         (call (GetFile (rf_name (handle ''PROCESSING''))) (sleep POLL_INTERVAL ?w1)))"
    by (subst poll_loop_step [where f' = "handle ''FAILED''"])
       (simp_all add: poll_loop_terminal TIMEOUT_def)
  then show ?thesis
    by (simp add: upload_to_gemini_def determine_mime_type_def truthy_def get_display_title_def
          Let_def call_def sleep_def world0_def POLL_INTERVAL_def)
qed

lemma poll_loop_delete_raises:
  "poll_loop (e\<lparr>delete_raises := b\<rparr>) s f w = poll_loop e s f w"
proof (induction e s f w rule: poll_loop.induct)
  case (1 e s f w)
  show ?case
  proof (cases "rf_state f = ''PROCESSING'' \<and> clock w - s \<le> TIMEOUT")
    case False
    then show ?thesis
      by (subst poll_loop.simps, subst (2) poll_loop.simps) auto
  next
    case True
    let ?g = "count_calls is_get (sleep POLL_INTERVAL w)"
    let ?w2 = "sleep (int (get_duration e ?g)) (call (GetFile (rf_name f)) (sleep POLL_INTERVAL w))"
    show ?thesis
    proof (cases "get_response e ?g")
      case (Inl raised)
      with True show ?thesis
        by (subst poll_loop.simps, subst (2) poll_loop.simps) (simp add: Let_def)
    next
      case (Inr f')
      from True Inr have "poll_loop (e\<lparr>delete_raises := b\<rparr>) s f' ?w2 = poll_loop e s f' ?w2"
        by (intro "1.IH" [of "sleep POLL_INTERVAL w" ?g ?w2 f']) auto
      with True Inr show ?thesis
        by (subst poll_loop.simps, subst (2) poll_loop.simps) (simp add: Let_def)
    qed
  qed
qed

lemma upload_to_gemini_delete_raises:
  "upload_to_gemini (e\<lparr>delete_raises := b\<rparr>) work_input w = upload_to_gemini e work_input w"
  by (simp add: upload_to_gemini_def determine_mime_type_def poll_loop_delete_raises Let_def
        split: option.splits sum.splits exn.splits)

lemma general_soldier_delete_raises:
  "general_soldier (e\<lparr>delete_raises := b\<rparr>) lens_keyword work_input gemini_file w
     = general_soldier e lens_keyword work_input gemini_file w"
  by (simp add: general_soldier_def Let_def split: option.splits)

text \<open>
  Whether the deletion fails or not has no effect on what the attempt returns, nor on the
  calls it makes: a failure is logged and nothing more.
\<close>

lemma generate_analysis_delete_raises:
  "fst (generate_analysis (e\<lparr>delete_raises := b\<rparr>) lens_keyword work_input w)
     = fst (generate_analysis e lens_keyword work_input w)
   \<and> calls (snd (generate_analysis (e\<lparr>delete_raises := b\<rparr>) lens_keyword work_input w))
     = calls (snd (generate_analysis e lens_keyword work_input w))"
  by (auto simp: generate_analysis_def upload_to_gemini_delete_raises general_soldier_delete_raises
           split: prod.splits sum.splits)

text \<open>
  Claim C1 does not hold of the code. The file store accepts the upload and returns a
  handle, the first poll reports the state \<open>FAILED\<close>, and the analysis attempt ends
  without any delete call: the calls of the whole attempt are the upload and the poll.
\<close>

theorem generate_analysis_leaks_failed_upload:
  "upload_response failed_at_first_poll = Inr (handle ''PROCESSING'')
   \<and> generate_analysis failed_at_first_poll ''Jungian'' audio_work world0 =
       (None,
        \<lparr>calls = [UploadFile ''Nocturne'' ''audio/mpeg'', GetFile ''files/w1''],
         clock = 3, logged = []\<rparr>)
   \<and> count_calls is_upload (snd (generate_analysis failed_at_first_poll ''Jungian'' audio_work world0)) = 1
   \<and> count_calls is_delete (snd (generate_analysis failed_at_first_poll ''Jungian'' audio_work world0)) = 0"
proof -
  have "generate_analysis failed_at_first_poll ''Jungian'' audio_work world0 =
      (None, snd (upload_to_gemini failed_at_first_poll audio_work world0))"
    by (rule generate_analysis_upload_error [where err = RemoteProcessingFailed])
       (simp_all add: upload_failed_at_first_poll)
  then show ?thesis
    by (simp add: upload_failed_at_first_poll count_calls_def)
qed

section \<open>Properties of the pipelines\<close>

lemma step_kind_simps [simp]:
  "failed_analysis (Analysis lens work_input result) = (\<not> truthy result)"
  "\<not> failed_analysis (DialecticalSynthesis la aa lb ab r)"
  "\<not> failed_analysis (SymposiumSynthesis as r)"
  "\<not> failed_analysis (ComparativeSynthesis l aa ab r)"
  "\<not> is_synthesis (Analysis lens work_input result)"
  "is_synthesis (DialecticalSynthesis la aa lb ab r)"
  "is_synthesis (SymposiumSynthesis as r)"
  "is_synthesis (ComparativeSynthesis l aa ab r)"
  by (simp_all add: failed_analysis_def is_synthesis_def)

lemma dialectical_execution_shape:
  "\<exists>a b r w'.
     (\<not> truthy a \<and> dialectical_execution e la lb work_a w = ([Analysis la work_a a], w'))
   \<or> (truthy a \<and> \<not> truthy b
        \<and> dialectical_execution e la lb work_a w = ([Analysis la work_a a, Analysis lb work_a b], w'))
   \<or> (truthy a \<and> truthy b
        \<and> dialectical_execution e la lb work_a w =
            ([Analysis la work_a a, Analysis lb work_a b,
              DialecticalSynthesis la (str_of_data a) lb (str_of_data b) r], w'))"
  unfolding dialectical_execution_def
  by (auto split: prod.splits)

lemma comparative_execution_shape:
  "\<exists>a b r w'.
     (\<not> truthy a \<and> comparative_execution e l work_a work_b w = ([Analysis l work_a a], w'))
   \<or> (truthy a \<and> \<not> truthy b
        \<and> comparative_execution e l work_a work_b w = ([Analysis l work_a a, Analysis l work_b b], w'))
   \<or> (truthy a \<and> truthy b
        \<and> comparative_execution e l work_a work_b w =
            ([Analysis l work_a a, Analysis l work_b b,
              ComparativeSynthesis l (str_of_data a) (str_of_data b) r], w'))"
  unfolding comparative_execution_def
  by (auto split: prod.splits)

text \<open>
  The invariant of the symposium loop: while the flag is set no step has failed; once it
  is cleared the last step is the failed analysis and the only one.
\<close>

lemma symposium_loop_invariant:
  assumes "symposium_loop e work_a ls (res, cont, steps, w) = (res', cont', steps', w')"
    and "\<forall>s \<in> set steps. \<not> is_synthesis s"
    and "cont \<longrightarrow> (\<forall>s \<in> set steps. \<not> failed_analysis s)"
    and "\<not> cont \<longrightarrow> (\<exists>pre s. steps = pre @ [s] \<and> failed_analysis s
            \<and> (\<forall>t \<in> set pre. \<not> failed_analysis t))"
  shows "(\<forall>s \<in> set steps'. \<not> is_synthesis s)
       \<and> (cont' \<longrightarrow> (\<forall>s \<in> set steps'. \<not> failed_analysis s))
       \<and> (\<not> cont' \<longrightarrow> (\<exists>pre s. steps' = pre @ [s] \<and> failed_analysis s
            \<and> (\<forall>t \<in> set pre. \<not> failed_analysis t)))"
  using assms
proof (induction ls arbitrary: res cont steps w)
  case Nil
  then show ?case by simp
next
  case (Cons lens_name rest)
  show ?case
  proof (cases cont)
    case False
    with Cons.prems show ?thesis by simp
  next
    case True
    obtain t w1 where g: "generate_analysis e lens_name work_a w = (t, w1)"
      by (cases "generate_analysis e lens_name work_a w") auto
    show ?thesis
    proof (cases "truthy t")
      case truthy: True
      with True g Cons.prems(1)
      have run: "symposium_loop e work_a rest
          (AList.update lens_name (str_of_data t) res, True,
           steps @ [Analysis lens_name work_a t], w1) = (res', cont', steps', w')"
        by simp
      show ?thesis
        by (rule Cons.IH [OF run]) (use True truthy Cons.prems in auto)
    next
      case falsy: False
      with True g Cons.prems(1)
      have run: "symposium_loop e work_a rest
          (res, False, steps @ [Analysis lens_name work_a t], w1) = (res', cont', steps', w')"
        by simp
      show ?thesis
        by (rule Cons.IH [OF run]) (use True falsy Cons.prems in auto)
    qed
  qed
qed

lemma last_failed_index:
  assumes "steps = pre @ [s]" and "\<forall>t \<in> set pre. \<not> failed_analysis t"
    and "i < length steps" and "failed_analysis (steps ! i)"
  shows "Suc i = length steps"
proof (rule ccontr)
  assume "Suc i \<noteq> length steps"
  with assms(1,3) have "i < length pre" by simp
  with assms(1) have "steps ! i \<in> set pre"
    by (simp add: nth_append)
  with assms(2,4) show False by blast
qed

lemma symposium_execution_halts:
  assumes "symposium_execution e ls work_a w = (steps, w')"
  shows "(\<forall>i < length steps. failed_analysis (steps ! i) \<longrightarrow> Suc i = length steps)
       \<and> ((\<exists>s \<in> set steps. failed_analysis s) \<longrightarrow> (\<forall>s \<in> set steps. \<not> is_synthesis s))"
proof -
  obtain res cont st w1 where loop:
    "symposium_loop e work_a ls ([], True, [], w) = (res, cont, st, w1)"
    by (cases "symposium_loop e work_a ls ([], True, [], w)") auto
  from symposium_loop_invariant [OF loop]
  have inv: "\<forall>s \<in> set st. \<not> is_synthesis s"
    "cont \<longrightarrow> (\<forall>s \<in> set st. \<not> failed_analysis s)"
    "\<not> cont \<longrightarrow> (\<exists>pre s. st = pre @ [s] \<and> failed_analysis s \<and> (\<forall>t \<in> set pre. \<not> failed_analysis t))"
    by simp_all
  show ?thesis
  proof (cases cont)
    case True
    then obtain r where steps: "steps = st @ [SymposiumSynthesis res r]"
      using assms loop
      by (auto simp: symposium_execution_def split: prod.splits)
    from True inv(2) have "\<forall>s \<in> set steps. \<not> failed_analysis s"
      by (simp add: steps)
    then show ?thesis
      by (metis nth_mem)
  next
    case False
    then have steps: "steps = st"
      using assms loop by (simp add: symposium_execution_def)
    from False inv(3) obtain pre s where pre: "st = pre @ [s]" "failed_analysis s"
        "\<forall>t \<in> set pre. \<not> failed_analysis t"
      by blast
    have "\<forall>i < length steps. failed_analysis (steps ! i) \<longrightarrow> Suc i = length steps"
      using last_failed_index [OF pre(1,3)] steps by blast
    with inv(1) steps show ?thesis
      by blast
  qed
qed

lemma short_pipeline_halts:
  assumes "(\<not> truthy a \<and> steps = [Analysis la wa a])
         \<or> (truthy a \<and> \<not> truthy b \<and> steps = [Analysis la wa a, Analysis lb wb b])
         \<or> (truthy a \<and> truthy b \<and> steps = [Analysis la wa a, Analysis lb wb b, syn] \<and> is_synthesis syn
              \<and> \<not> failed_analysis syn)"
  shows "(\<forall>i < length steps. failed_analysis (steps ! i) \<longrightarrow> Suc i = length steps)
       \<and> ((\<exists>s \<in> set steps. failed_analysis s) \<longrightarrow> (\<forall>s \<in> set steps. \<not> is_synthesis s))"
  using assms by (auto simp: nth_Cons' less_Suc_eq)

text \<open>
  Claim C2. In the dialectical, symposium and comparative pipelines, an analysis that
  fails (its result is \<open>None\<close>, or empty) is the last step of the run: no analysis and no
  synthesis follows it, and a run that contains a failed analysis contains no synthesis
  call at all.
\<close>

theorem pipelines_halt_at_first_failure:
  "(\<forall>i < length (fst (dialectical_execution e lens_a_name lens_b_name work_a w)).
      failed_analysis (fst (dialectical_execution e lens_a_name lens_b_name work_a w) ! i)
      \<longrightarrow> Suc i = length (fst (dialectical_execution e lens_a_name lens_b_name work_a w)))
   \<and> ((\<exists>s \<in> set (fst (dialectical_execution e lens_a_name lens_b_name work_a w)). failed_analysis s)
      \<longrightarrow> (\<forall>s \<in> set (fst (dialectical_execution e lens_a_name lens_b_name work_a w)). \<not> is_synthesis s))
   \<and> (\<forall>i < length (fst (symposium_execution e selected_lenses work_a w)).
      failed_analysis (fst (symposium_execution e selected_lenses work_a w) ! i)
      \<longrightarrow> Suc i = length (fst (symposium_execution e selected_lenses work_a w)))
   \<and> ((\<exists>s \<in> set (fst (symposium_execution e selected_lenses work_a w)). failed_analysis s)
      \<longrightarrow> (\<forall>s \<in> set (fst (symposium_execution e selected_lenses work_a w)). \<not> is_synthesis s))
   \<and> (\<forall>i < length (fst (comparative_execution e lens_name work_a work_b w)).
      failed_analysis (fst (comparative_execution e lens_name work_a work_b w) ! i)
      \<longrightarrow> Suc i = length (fst (comparative_execution e lens_name work_a work_b w)))
   \<and> ((\<exists>s \<in> set (fst (comparative_execution e lens_name work_a work_b w)). failed_analysis s)
      \<longrightarrow> (\<forall>s \<in> set (fst (comparative_execution e lens_name work_a work_b w)). \<not> is_synthesis s))"
proof -
  let ?d = "fst (dialectical_execution e lens_a_name lens_b_name work_a w)"
  let ?s = "fst (symposium_execution e selected_lenses work_a w)"
  let ?c = "fst (comparative_execution e lens_name work_a work_b w)"
  from dialectical_execution_shape [of e lens_a_name lens_b_name work_a w]
  obtain a b r where
    "(\<not> truthy a \<and> ?d = [Analysis lens_a_name work_a a])
     \<or> (truthy a \<and> \<not> truthy b \<and> ?d = [Analysis lens_a_name work_a a, Analysis lens_b_name work_a b])
     \<or> (truthy a \<and> truthy b
        \<and> ?d = [Analysis lens_a_name work_a a, Analysis lens_b_name work_a b,
                 DialecticalSynthesis lens_a_name (str_of_data a) lens_b_name (str_of_data b) r]
        \<and> is_synthesis (DialecticalSynthesis lens_a_name (str_of_data a) lens_b_name (str_of_data b) r)
        \<and> \<not> failed_analysis (DialecticalSynthesis lens_a_name (str_of_data a) lens_b_name (str_of_data b) r))"
    by fastforce
  then have d: "(\<forall>i < length ?d. failed_analysis (?d ! i) \<longrightarrow> Suc i = length ?d)
      \<and> ((\<exists>s \<in> set ?d. failed_analysis s) \<longrightarrow> (\<forall>s \<in> set ?d. \<not> is_synthesis s))"
    by (rule short_pipeline_halts)
  from comparative_execution_shape [of e lens_name work_a work_b w]
  obtain a b r where
    "(\<not> truthy a \<and> ?c = [Analysis lens_name work_a a])
     \<or> (truthy a \<and> \<not> truthy b \<and> ?c = [Analysis lens_name work_a a, Analysis lens_name work_b b])
     \<or> (truthy a \<and> truthy b
        \<and> ?c = [Analysis lens_name work_a a, Analysis lens_name work_b b,
                 ComparativeSynthesis lens_name (str_of_data a) (str_of_data b) r]
        \<and> is_synthesis (ComparativeSynthesis lens_name (str_of_data a) (str_of_data b) r)
        \<and> \<not> failed_analysis (ComparativeSynthesis lens_name (str_of_data a) (str_of_data b) r))"
    by fastforce
  then have c: "(\<forall>i < length ?c. failed_analysis (?c ! i) \<longrightarrow> Suc i = length ?c)
      \<and> ((\<exists>s \<in> set ?c. failed_analysis s) \<longrightarrow> (\<forall>s \<in> set ?c. \<not> is_synthesis s))"
    by (rule short_pipeline_halts)
  have s: "(\<forall>i < length ?s. failed_analysis (?s ! i) \<longrightarrow> Suc i = length ?s)
      \<and> ((\<exists>s \<in> set ?s. failed_analysis s) \<longrightarrow> (\<forall>s \<in> set ?s. \<not> is_synthesis s))"
    by (rule symposium_execution_halts [of e selected_lenses work_a w _ "snd (symposium_execution e selected_lenses work_a w)"]) simp
  from d s c show ?thesis
    by (intro conjI) (erule conjunct1 conjunct2)+
qed

lemma generate_analysis_text_fails:
  assumes "modality work_input = M_TEXT" and "\<forall>cs. generate_response e (count_calls is_generate w) cs = None"
  shows "fst (generate_analysis e lens_keyword work_input w) = None
       \<and> count_calls is_generate (snd (generate_analysis e lens_keyword work_input w))
           = Suc (count_calls is_generate w)"
  using assms by (simp add: generate_analysis_text general_soldier_def Let_def)

lemma generate_analysis_text_succeeds:
  assumes "modality work_input = M_TEXT"
    and "\<forall>cs. generate_response e (count_calls is_generate w) cs = Some answer"
    and "\<forall>cs. generate_response e (Suc (count_calls is_generate w)) cs = Some result"
  shows "fst (generate_analysis e lens_keyword work_input w) = Some result
       \<and> count_calls is_generate (snd (generate_analysis e lens_keyword work_input w))
           = Suc (Suc (count_calls is_generate w))"
  using assms by (simp add: generate_analysis_text general_soldier_def Let_def)

lemma symposium_stops_at_second_lens:
  "\<exists>w'. symposium_execution fails_from_third_call [''Jungian'', ''Marxist'', ''Feminist''] text_work world0
     = ([Analysis ''Jungian'' text_work (Some ''An analysis.''), Analysis ''Marxist'' text_work None], w')"
proof -
  obtain w1 where w1: "generate_analysis fails_from_third_call ''Jungian'' text_work world0
      = (Some ''An analysis.'', w1)" "count_calls is_generate w1 = 2"
    using generate_analysis_text_succeeds [of text_work fails_from_third_call world0
        "''An analysis.''" "''An analysis.''" "''Jungian''"]
    by (cases "generate_analysis fails_from_third_call ''Jungian'' text_work world0") simp
  obtain w2 where w2: "generate_analysis fails_from_third_call ''Marxist'' text_work w1 = (None, w2)"
    using generate_analysis_text_fails [of text_work fails_from_third_call w1 "''Marxist''"] w1(2)
    by (cases "generate_analysis fails_from_third_call ''Marxist'' text_work w1") simp
  show ?thesis
    by (simp add: symposium_execution_def w1 w2 truthy_def)
qed

theorem pipelines_halt_at_first_failure_witness:
  "fst (symposium_execution fails_from_third_call [''Jungian'', ''Marxist'', ''Feminist''] text_work world0)
     = [Analysis ''Jungian'' text_work (Some ''An analysis.''), Analysis ''Marxist'' text_work None]
   \<and> failed_analysis
       (fst (symposium_execution fails_from_third_call [''Jungian'', ''Marxist'', ''Feminist''] text_work world0) ! 1)
   \<and> Suc 1 = length
       (fst (symposium_execution fails_from_third_call [''Jungian'', ''Marxist'', ''Feminist''] text_work world0))"
proof -
  let ?steps = "fst (symposium_execution fails_from_third_call [''Jungian'', ''Marxist'', ''Feminist''] text_work world0)"
  have steps: "?steps = [Analysis ''Jungian'' text_work (Some ''An analysis.''), Analysis ''Marxist'' text_work None]"
    using symposium_stops_at_second_lens by auto
  then have failed: "1 < length ?steps" "failed_analysis (?steps ! 1)"
    by (simp_all add: truthy_def)
  note halt = pipelines_halt_at_first_failure [of fails_from_third_call "''Jungian''" "''Marxist''"
      text_work world0 "[''Jungian'', ''Marxist'', ''Feminist'']" "''Jungian''" text_work,
      THEN conjunct2, THEN conjunct2, THEN conjunct1, rule_format, of 1]
  from halt [OF failed] steps failed(2) show ?thesis
    by simp
qed

section \<open>Properties of the selection and of the gate\<close>

lemma symposium_loop_stopped:
  "symposium_loop e work_a ls (res, False, steps, w) = (res, False, steps, w)"
  by (cases ls) simp_all

lemma symposium_loop_results:
  assumes "symposium_loop e work_a ls (res, True, steps, w) = (res', True, steps', w')"
    and "distinct (map fst res)"
  shows "fst ` set res' = fst ` set res \<union> set ls \<and> distinct (map fst res')"
  using assms
proof (induction ls arbitrary: res steps w)
  case Nil
  then show ?case by simp
next
  case (Cons lens_name rest)
  obtain t w1 where g: "generate_analysis e lens_name work_a w = (t, w1)"
    by (cases "generate_analysis e lens_name work_a w") auto
  show ?case
  proof (cases "truthy t")
    case True
    with g Cons.prems(1)
    have run: "symposium_loop e work_a rest
        (AList.update lens_name (str_of_data t) res, True,
         steps @ [Analysis lens_name work_a t], w1) = (res', True, steps', w')"
      by simp
    have d: "distinct (map fst (AList.update lens_name (str_of_data t) res))"
      using Cons.prems(2) by (rule distinct_update)
    from Cons.IH [OF run d] show ?thesis
      by (auto simp: dom_update)
  next
    case False
    with g Cons.prems(1) show ?thesis
      by (simp add: symposium_loop_stopped)
  qed
qed

lemma symposium_execution_synthesis:
  assumes "symposium_execution e ls work_a w = (steps, w')"
    and "SymposiumSynthesis analyses r \<in> set steps"
  shows "fst ` set analyses = set ls \<and> distinct (map fst analyses)"
proof -
  obtain res cont st w1 where loop:
    "symposium_loop e work_a ls ([], True, [], w) = (res, cont, st, w1)"
    by (cases "symposium_loop e work_a ls ([], True, [], w)") auto
  from symposium_loop_invariant [OF loop]
  have nosyn: "\<forall>s \<in> set st. \<not> is_synthesis s"
    by simp
  show ?thesis
  proof (cases cont)
    case False
    with assms loop nosyn show ?thesis
      by (auto simp: symposium_execution_def)
  next
    case True
    with assms(1) loop obtain r' where "steps = st @ [SymposiumSynthesis res r']"
      by (auto simp: symposium_execution_def split: prod.splits)
    with assms(2) nosyn have "analyses = res"
      by auto
    moreover from loop True
    have loop': "symposium_loop e work_a ls ([], True, [], w) = (res, True, st, w1)"
      by simp
    have "fst ` set res = set ls \<and> distinct (map fst res)"
      using symposium_loop_results [OF loop'] by simp
    ultimately show ?thesis
      by simp
  qed
qed

lemma distinct_keys_length:
  assumes "fst ` set analyses = set ls" and "distinct (map fst analyses)" and "distinct ls"
  shows "length analyses = length ls"
proof -
  have "length analyses = card (set (map fst analyses))"
    using assms(2) distinct_card [of "map fst analyses"] by simp
  also have "\<dots> = card (set ls)"
    using assms(1) by simp
  also have "\<dots> = length ls"
    using assms(3) by (rule distinct_card)
  finally show ?thesis .
qed

lemma symposium_selection_cases:
  "symposium_selection ui =
     (if ui_selected_categories ui \<noteq> [] \<and> 3 \<le> length (ui_selected_lenses ui)
      then Lenses (ui_selected_lenses ui) else Lenses [])"
  by (auto simp: symposium_selection_def Let_def)

lemma distinct_get_filtered_lenses: "distinct (get_filtered_lenses hierarchy selected_categories)"
  by (simp add: get_filtered_lenses_def)

text \<open>
  Claim C9. In symposium mode a run of the script never fails with an exception of its
  own, and the symposium synthesis is only ever called with the analyses of at least
  three lenses: the lenses selected, one analysis each. A selection of fewer than three
  lenses is replaced by the empty selection, the form is not shown and no call is made.
  The multiselect widget returns each option at most once, so the selected lenses are
  distinct.
\<close>

theorem symposium_synthesis_at_least_three:
  assumes "ui_analysis_mode ui = A_SYMPOSIUM" and "distinct (ui_selected_lenses ui)"
  shows "\<exists>steps w'. script_run e ui w = Inr (steps, w')
       \<and> (\<forall>analyses r. SymposiumSynthesis analyses r \<in> set steps
            \<longrightarrow> 3 \<le> length analyses \<and> fst ` set analyses = set (ui_selected_lenses ui))
       \<and> (length (ui_selected_lenses ui) < 3
            \<longrightarrow> sidebar_selection ui = Lenses [] \<and> steps = [] \<and> w' = w)"
proof (cases "ui_selected_categories ui \<noteq> [] \<and> 3 \<le> length (ui_selected_lenses ui)")
  case False
  then have sel: "sidebar_selection ui = Lenses []"
    using assms(1) by (auto simp: sidebar_selection_def symposium_selection_cases)
  then have "script_run e ui w = Inr ([], w)"
    using assms(1) by (simp add: script_run_def Let_def display_analysis_form_def selection_truthy_def)
  with sel show ?thesis
    by simp
next
  case True
  let ?ls = "ui_selected_lenses ui"
  from True have sel: "sidebar_selection ui = Lenses ?ls"
    using assms(1) by (simp add: sidebar_selection_def symposium_selection_cases)
  show ?thesis
  proof (cases "script_run e ui w = Inr ([], w)")
    case True
    with \<open>ui_selected_categories ui \<noteq> [] \<and> 3 \<le> length ?ls\<close> show ?thesis
      by simp
  next
    case False
    then have run: "script_run e ui w = Inr (symposium_execution e ?ls (ui_work_a ui) w)"
      using assms(1) sel
      by (auto simp: script_run_def Let_def execution_block_def split: if_splits)
    obtain steps w' where ex: "symposium_execution e ?ls (ui_work_a ui) w = (steps, w')"
      by (cases "symposium_execution e ?ls (ui_work_a ui) w") auto
    have "3 \<le> length analyses \<and> fst ` set analyses = set ?ls"
      if "SymposiumSynthesis analyses r \<in> set steps" for analyses r
    proof -
      from symposium_execution_synthesis [OF ex that]
      have k: "fst ` set analyses = set ?ls" "distinct (map fst analyses)"
        by simp_all
      from distinct_keys_length [OF k assms(2)] \<open>ui_selected_categories ui \<noteq> [] \<and> 3 \<le> length ?ls\<close> k(1)
      show ?thesis by simp
    qed
    with run ex \<open>ui_selected_categories ui \<noteq> [] \<and> 3 \<le> length ?ls\<close> show ?thesis
      by auto
  qed
qed

lemma dialectical_selection_cases:
  "dialectical_selection ui =
     (case (ui_lens_a ui, ui_lens_b ui) of
        (Some la, Some lb) \<Rightarrow> if la \<noteq> [] \<and> lb \<noteq> [] \<and> la \<noteq> lb then Lenses [la, lb] else Lenses []
      | _ \<Rightarrow> Lenses [])"
  by (auto simp: dialectical_selection_def split: option.splits)

text \<open>
  Claim C10. In dialectical mode a run of the script never fails with an exception of
  its own. When Lens A and Lens B are the same lens, the selection is emptied, the form is
  not shown and nothing is run. Whenever the pipeline runs, it is the dialectical pipeline
  on the two lenses chosen, and these differ; so every dialectical synthesis is called
  with two distinct lens names.
\<close>

theorem dialectical_lenses_distinct:
  assumes "ui_analysis_mode ui = A_DIALECTICAL"
  shows "\<exists>steps w'. script_run e ui w = Inr (steps, w')
       \<and> (\<forall>la aa lb ab r. DialecticalSynthesis la aa lb ab r \<in> set steps \<longrightarrow> la \<noteq> lb)
       \<and> (ui_lens_a ui = ui_lens_b ui
            \<longrightarrow> sidebar_selection ui = Lenses [] \<and> steps = [] \<and> w' = w)
       \<and> (steps \<noteq> []
            \<longrightarrow> (\<exists>la lb. ui_lens_a ui = Some la \<and> ui_lens_b ui = Some lb \<and> la \<noteq> lb
                   \<and> (steps, w') = dialectical_execution e la lb (ui_work_a ui) w))"
proof (cases "\<exists>la lb. ui_lens_a ui = Some la \<and> ui_lens_b ui = Some lb \<and> la \<noteq> [] \<and> lb \<noteq> [] \<and> la \<noteq> lb")
  case False
  then have sel: "sidebar_selection ui = Lenses []"
    using assms by (auto simp: sidebar_selection_def dialectical_selection_cases split: option.splits)
  then have "script_run e ui w = Inr ([], w)"
    using assms by (simp add: script_run_def Let_def display_analysis_form_def selection_truthy_def)
  with sel show ?thesis
    by simp
next
  case True
  then obtain la lb where l: "ui_lens_a ui = Some la" "ui_lens_b ui = Some lb"
      "la \<noteq> []" "lb \<noteq> []" "la \<noteq> lb"
    by blast
  then have sel: "sidebar_selection ui = Lenses [la, lb]"
    using assms by (simp add: sidebar_selection_def dialectical_selection_cases)
  show ?thesis
  proof (cases "script_run e ui w = Inr ([], w)")
    case True
    with l show ?thesis by simp
  next
    case False
    then have run: "script_run e ui w = Inr (dialectical_execution e la lb (ui_work_a ui) w)"
      using assms sel
      by (auto simp: script_run_def Let_def execution_block_def index_def split: if_splits)
    obtain steps w' where ex: "dialectical_execution e la lb (ui_work_a ui) w = (steps, w')"
      by (cases "dialectical_execution e la lb (ui_work_a ui) w") auto
    have syn: "\<forall>la' aa lb' ab r. DialecticalSynthesis la' aa lb' ab r \<in> set steps \<longrightarrow> la' \<noteq> lb'"
      using dialectical_execution_shape [of e la lb "ui_work_a ui" w] ex l(5)
      by auto
    have same: "ui_lens_a ui \<noteq> ui_lens_b ui"
      using l by simp
    have pipe: "\<exists>la lb. ui_lens_a ui = Some la \<and> ui_lens_b ui = Some lb \<and> la \<noteq> lb
        \<and> (steps, w') = dialectical_execution e la lb (ui_work_a ui) w"
      using l ex by simp
    from run ex have "script_run e ui w = Inr (steps, w')"
      by simp
    with syn same pipe show ?thesis
      by blast
  qed
qed

lemma answering_service_analysis:
  "\<exists>w'. generate_analysis answering_service lens_keyword text_work w = (Some ''An analysis.'', w')"
  using generate_analysis_text_succeeds [of text_work answering_service w "''An analysis.''"
      "''An analysis.''" lens_keyword]
  by (cases "generate_analysis answering_service lens_keyword text_work w") simp

lemma symposium_ui_simps [simp]:
  "ui_analysis_mode symposium_ui = A_SYMPOSIUM"
  "ui_selected_categories symposium_ui = [''Psychological'', ''Socio-Political'']"
  "ui_selected_lenses symposium_ui = [''Jungian'', ''Marxist'', ''Feminist'']"
  "ui_api_key symposium_ui = ''key''" "ui_button symposium_ui"
  "ui_work_a symposium_ui = text_work" "ui_work_b symposium_ui = text_work"
  "ui_model_available symposium_ui"
  by (simp_all add: symposium_ui_def)

lemma dialectical_ui_simps [simp]:
  "ui_analysis_mode dialectical_ui = A_DIALECTICAL"
  "ui_lens_a dialectical_ui = Some ''Jungian''" "ui_lens_b dialectical_ui = Some ''Marxist''"
  "ui_api_key dialectical_ui = ''key''" "ui_button dialectical_ui"
  "ui_work_a dialectical_ui = text_work" "ui_work_b dialectical_ui = text_work"
  "ui_model_available dialectical_ui"
  by (simp_all add: dialectical_ui_def)

lemma is_ready_text_work [simp]: "is_ready text_work"
  by (simp add: is_ready_def)

lemma symposium_run_three_lenses:
  "\<exists>r w'. script_run answering_service symposium_ui world0 =
     Inr ([Analysis ''Jungian'' text_work (Some ''An analysis.''),
           Analysis ''Marxist'' text_work (Some ''An analysis.''),
           Analysis ''Feminist'' text_work (Some ''An analysis.''),
           SymposiumSynthesis [(''Jungian'', ''An analysis.''), (''Marxist'', ''An analysis.''),
                               (''Feminist'', ''An analysis.'')] r], w')"
proof -
  obtain w1 where w1: "generate_analysis answering_service ''Jungian'' text_work world0
      = (Some ''An analysis.'', w1)"
    using answering_service_analysis by blast
  obtain w2 where w2: "generate_analysis answering_service ''Marxist'' text_work w1
      = (Some ''An analysis.'', w2)"
    using answering_service_analysis by blast
  obtain w3 where w3: "generate_analysis answering_service ''Feminist'' text_work w2
      = (Some ''An analysis.'', w3)"
    using answering_service_analysis by blast
  have "symposium_loop answering_service text_work [''Jungian'', ''Marxist'', ''Feminist'']
          ([], True, [], world0) =
        ([(''Jungian'', ''An analysis.''), (''Marxist'', ''An analysis.''),
          (''Feminist'', ''An analysis.'')], True,
         [Analysis ''Jungian'' text_work (Some ''An analysis.''),
          Analysis ''Marxist'' text_work (Some ''An analysis.''),
          Analysis ''Feminist'' text_work (Some ''An analysis.'')], w3)"
    by (simp add: w1 w2 w3 truthy_def str_of_data_def)
  then show ?thesis
    by (simp add: script_run_def Let_def sidebar_selection_def symposium_selection_cases
          display_analysis_form_def selection_truthy_def selection_len_def execution_block_def
          symposium_execution_def split: prod.splits)
qed

theorem symposium_synthesis_at_least_three_witness:
  "distinct (ui_selected_lenses symposium_ui)
   \<and> (\<exists>analyses r w'. script_run answering_service symposium_ui world0 =
         Inr ([Analysis ''Jungian'' text_work (Some ''An analysis.''),
               Analysis ''Marxist'' text_work (Some ''An analysis.''),
               Analysis ''Feminist'' text_work (Some ''An analysis.''),
               SymposiumSynthesis analyses r], w')
        \<and> 3 \<le> length analyses)
   \<and> script_run answering_service (symposium_ui\<lparr>ui_selected_lenses := [''Jungian'', ''Marxist'']\<rparr>) world0
       = Inr ([], world0)"
proof -
  have d3: "distinct (ui_selected_lenses symposium_ui)"
    by simp
  have m2: "ui_analysis_mode (symposium_ui\<lparr>ui_selected_lenses := [''Jungian'', ''Marxist'']\<rparr>) = A_SYMPOSIUM"
    by simp
  have d2: "distinct (ui_selected_lenses (symposium_ui\<lparr>ui_selected_lenses := [''Jungian'', ''Marxist'']\<rparr>))"
    by simp
  from symposium_synthesis_at_least_three [OF m2 d2, of answering_service world0]
  have two: "script_run answering_service (symposium_ui\<lparr>ui_selected_lenses := [''Jungian'', ''Marxist'']\<rparr>) world0
       = Inr ([], world0)"
    by auto
  from symposium_run_three_lenses obtain r w' where run:
    "script_run answering_service symposium_ui world0 =
     Inr ([Analysis ''Jungian'' text_work (Some ''An analysis.''),
           Analysis ''Marxist'' text_work (Some ''An analysis.''),
           Analysis ''Feminist'' text_work (Some ''An analysis.''),
           SymposiumSynthesis [(''Jungian'', ''An analysis.''), (''Marxist'', ''An analysis.''),
                               (''Feminist'', ''An analysis.'')] r], w')"
    by blast
  from symposium_synthesis_at_least_three [OF symposium_ui_simps(1) d3, of answering_service world0] run
  have "3 \<le> length [(''Jungian'', ''An analysis.''), (''Marxist'', ''An analysis.''),
                      (''Feminist'', ''An analysis.'')]"
    by auto
  with run d3 two show ?thesis
    by blast
qed

lemma dialectical_run_two_lenses:
  "\<exists>r w'. script_run answering_service dialectical_ui world0 =
     Inr ([Analysis ''Jungian'' text_work (Some ''An analysis.''),
           Analysis ''Marxist'' text_work (Some ''An analysis.''),
           DialecticalSynthesis ''Jungian'' ''An analysis.'' ''Marxist'' ''An analysis.'' r], w')"
proof -
  obtain w1 where w1: "generate_analysis answering_service ''Jungian'' text_work world0
      = (Some ''An analysis.'', w1)"
    using answering_service_analysis by blast
  obtain w2 where w2: "generate_analysis answering_service ''Marxist'' text_work w1
      = (Some ''An analysis.'', w2)"
    using answering_service_analysis by blast
  have "\<exists>r w'. dialectical_execution answering_service ''Jungian'' ''Marxist'' text_work world0 =
        ([Analysis ''Jungian'' text_work (Some ''An analysis.''),
          Analysis ''Marxist'' text_work (Some ''An analysis.''),
          DialecticalSynthesis ''Jungian'' ''An analysis.'' ''Marxist'' ''An analysis.'' r], w')"
    by (simp add: dialectical_execution_def w1 w2 truthy_def str_of_data_def split: prod.splits)
  then show ?thesis
    by (simp add: script_run_def Let_def sidebar_selection_def dialectical_selection_cases
          display_analysis_form_def selection_truthy_def selection_len_def execution_block_def
          index_def)
qed

theorem dialectical_lenses_distinct_witness:
  "ui_analysis_mode dialectical_ui = A_DIALECTICAL
   \<and> (\<exists>r w'. script_run answering_service dialectical_ui world0 =
         Inr ([Analysis ''Jungian'' text_work (Some ''An analysis.''),
               Analysis ''Marxist'' text_work (Some ''An analysis.''),
               DialecticalSynthesis ''Jungian'' ''An analysis.'' ''Marxist'' ''An analysis.'' r], w'))
   \<and> script_run answering_service (dialectical_ui\<lparr>ui_lens_b := Some ''Jungian''\<rparr>) world0
       = Inr ([], world0)"
proof -
  have m: "ui_analysis_mode (dialectical_ui\<lparr>ui_lens_b := Some ''Jungian''\<rparr>) = A_DIALECTICAL"
    by simp
  from dialectical_lenses_distinct [OF m, of answering_service world0]
  have same: "script_run answering_service (dialectical_ui\<lparr>ui_lens_b := Some ''Jungian''\<rparr>) world0
       = Inr ([], world0)"
    by auto
  with dialectical_run_two_lenses show ?thesis
    by simp
qed

end
